theory Spec2Isabelle
  imports Main "HOL-Library.Sublist"
begin

section \<open>JavaScript strings\<close>

text \<open>
  A JavaScript string is a sequence of UTF-16 code units. The report is mined with regular
  expressions that have no \<open>u\<close> flag, so every pattern works on single code units; the
  bullet character of \<open>extractBulletPoints\<close> is the code unit 8226 (U+2022).
\<close>

type_synonym cu = nat
type_synonym jstring = "cu list"

definition js :: "string \<Rightarrow> jstring" where
  "js s = map of_char s"

text \<open>The character classes of the patterns: \<open>\d\<close>, \<open>\s\<close>, \<open>.\<close> and \<open>[^]\<close>.\<close>

definition is_digit :: "cu \<Rightarrow> bool" where
  "is_digit c = (48 \<le> c \<and> c \<le> 57)"

definition is_space :: "cu \<Rightarrow> bool" where
  "is_space c = (c \<in> {9, 10, 11, 12, 13, 32, 160, 5760, 8232, 8233, 8239, 8287, 12288, 65279}
                 \<or> (8192 \<le> c \<and> c \<le> 8202))"

definition dot :: "cu \<Rightarrow> bool" where
  "dot c = (c \<notin> {10, 13, 8232, 8233})"

definition any_cu :: "cu \<Rightarrow> bool" where
  "any_cu c = True"

definition one_of :: "jstring \<Rightarrow> cu \<Rightarrow> bool" where
  "one_of cs c = (c \<in> set cs)"

definition none_of :: "jstring \<Rightarrow> cu \<Rightarrow> bool" where
  "none_of cs c = (c \<notin> set cs)"

text \<open>
  Under the \<open>i\<close> flag two code units match when their canonical forms agree. Every letter
  written in a pattern of this program is ASCII, and the canonical form of a code unit
  above 127 is never an ASCII one, so comparing ASCII upper-case forms is exact.
\<close>

definition upper :: "cu \<Rightarrow> cu" where
  "upper c = (if 97 \<le> c \<and> c \<le> 122 then c - 32 else c)"

definition ci :: "cu \<Rightarrow> cu \<Rightarrow> bool" where
  "ci p c = (upper c = upper p)"

text \<open>
  \<open>String.prototype.toLowerCase\<close>. Only two code units above 127 have a lower-case form
  that contains an ASCII letter (the Kelvin sign and the dotted capital I); the others are
  left as they are, which does not change where an ASCII keyword occurs.
\<close>

definition lower_cu :: "cu \<Rightarrow> jstring" where
  "lower_cu c =
     (if 65 \<le> c \<and> c \<le> 90 then [c + 32]
      else if c = 8490 then [107]
      else if c = 304 then [105, 775]
      else [c])"

definition toLowerCase :: "jstring \<Rightarrow> jstring" where
  "toLowerCase s = concat (map lower_cu s)"

fun includes_js :: "jstring \<Rightarrow> jstring \<Rightarrow> bool" where
  "includes_js [] n = (n = [])"
| "includes_js (a # t) n = (prefix n (a # t) \<or> includes_js t n)"

definition trim :: "jstring \<Rightarrow> jstring" where
  "trim s = rev (dropWhile is_space (rev (dropWhile is_space s)))"

text \<open>\<open>text.split('\n')\<close>: the pieces between line feeds, the empty ones included.\<close>

fun split_nl :: "jstring \<Rightarrow> jstring list" where
  "split_nl [] = [[]]"
| "split_nl (c # s) =
     (if c = 10 then [] # split_nl s
      else (case split_nl s of l # ls \<Rightarrow> (c # l) # ls | [] \<Rightarrow> [[c]]))"

text \<open>The decimal digits of a criterion number, as template interpolation gives them.\<close>

fun toString :: "nat \<Rightarrow> jstring" where
  "toString n = (if n < 10 then [48 + n] else toString (n div 10) @ [48 + n mod 10])"

declare toString.simps [simp del]

section \<open>JavaScript numbers\<close>

text \<open>
  A Number is an IEEE 754 double. Every number of this program is read by \<open>parseInt\<close>
  from a run of digits, or is a small integer constant, or is a difference of such numbers,
  so it is a double with an integer value or an infinity: \<open>Fin n\<close> is the double whose
  value is the integer \<open>n\<close>. NaN is a failure value (see below). Negative zero is not
  told apart from zero: no comparison, subtraction or \<open>Math.max(0, x)\<close> of this program
  does.
\<close>

datatype number = Fin int | PosInf | NegInf

text \<open>The order of \<open>>=\<close> and of \<open>Math.max\<close> on these numbers.\<close>

instantiation number :: linorder
begin

fun less_eq_number :: "number \<Rightarrow> number \<Rightarrow> bool" where
  "less_eq_number NegInf y = True"
| "less_eq_number (Fin a) NegInf = False"
| "less_eq_number (Fin a) (Fin b) = (a \<le> b)"
| "less_eq_number (Fin a) PosInf = True"
| "less_eq_number PosInf PosInf = True"
| "less_eq_number PosInf y = False"

definition less_number :: "number \<Rightarrow> number \<Rightarrow> bool" where
  "less_number x y = (x \<le> y \<and> \<not> y \<le> x)"

instance
proof
  fix x y z :: number
  show "(x < y) = (x \<le> y \<and> \<not> y \<le> x)" by (simp add: less_number_def)
  show "x \<le> x" by (cases x) simp_all
  show "x \<le> y \<Longrightarrow> y \<le> z \<Longrightarrow> x \<le> z" by (cases x; cases y; cases z) simp_all
  show "x \<le> y \<Longrightarrow> y \<le> x \<Longrightarrow> x = y" by (cases x; cases y) simp_all
  show "x \<le> y \<or> y \<le> x" by (cases x; cases y) auto
qed

end

text \<open>
  The conversion of a mathematical integer to a Number: the nearest double, a tie going to
  the even significand, and an infinity from \<open>2^1024 - 2^970\<close> on. Below \<open>2^53\<close> every
  integer is a double; from there on the doubles in \<open>[2^k, 2^(k+1))\<close> are the multiples
  of \<open>2^(k-52)\<close>.
\<close>

fun bitlen :: "nat \<Rightarrow> nat" where
  "bitlen n = (if n = 0 then 0 else Suc (bitlen (n div 2)))"

declare bitlen.simps [simp del]

definition round_half_even :: "nat \<Rightarrow> nat \<Rightarrow> nat" where
  "round_half_even n u =
     (let q = n div u; r = n mod u
      in if 2 * r < u then q * u
         else if u < 2 * r then (q + 1) * u
         else if even q then q * u else (q + 1) * u)"

definition to_double :: "nat \<Rightarrow> nat option" where
  "to_double n =
     (if n < 9007199254740992 then Some n
      else if 2 ^ 1024 - 2 ^ 970 \<le> n then None
      else Some (round_half_even n (2 ^ (bitlen n - 53))))"

definition to_number :: "int \<Rightarrow> number" where
  "to_number i =
     (case to_double (nat \<bar>i\<bar>) of
        None \<Rightarrow> if i < 0 then NegInf else PosInf
      | Some m \<Rightarrow> Fin (if i < 0 then - int m else int m))"

text \<open>
  Subtraction of two Numbers: the exact difference, converted; the difference of two equal
  infinities is NaN, which is \<open>None\<close> here.
\<close>

fun js_minus :: "number \<Rightarrow> number \<Rightarrow> number option" where
  "js_minus (Fin a) (Fin b) = Some (to_number (a - b))"
| "js_minus (Fin a) PosInf = Some NegInf"
| "js_minus (Fin a) NegInf = Some PosInf"
| "js_minus PosInf PosInf = None"
| "js_minus PosInf y = Some PosInf"
| "js_minus NegInf NegInf = None"
| "js_minus NegInf y = Some NegInf"

text \<open>
  \<open>parseInt(s, 10)\<close>: leading white space and one sign are skipped, the longest run of
  digits is read, and the result is NaN (here \<open>None\<close>) when that run is empty. Otherwise
  the mathematical value \<open>mathInt\<close> of the run, with its sign, is converted to a Number:
  a run beyond \<open>2^53\<close> is rounded, and a run of some 309 digits or more gives Infinity.
  ECMAScript allows an engine to read the digits after the twentieth as zeros; the value
  here is the correctly rounded one, and the two agree on every run of at most twenty
  digits and on Infinity for a run of 310 digits that does not start with 0.
\<close>

definition mathInt :: "jstring \<Rightarrow> nat" where
  "mathInt ds = foldl (\<lambda>acc d. 10 * acc + (d - 48)) 0 ds"

definition parseInt :: "jstring \<Rightarrow> number option" where
  "parseInt s =
     (let t = dropWhile is_space s;
          neg = (case t of [] \<Rightarrow> False | c # _ \<Rightarrow> c = 45);
          u = (case t of [] \<Rightarrow> [] | c # r \<Rightarrow> if c = 45 \<or> c = 43 then r else t);
          ds = takeWhile is_digit u
      in if ds = [] then None
         else Some (to_number (if neg then - int (mathInt ds) else int (mathInt ds))))"

section \<open>Regular expressions\<close>

text \<open>
  A pattern is a sequence of items, matched by backtracking in the order of the
  ECMAScript semantics: a greedy quantifier tries one more repetition first, a lazy one
  tries the rest of the pattern first, an alternation tries its left branch first, and a
  look-ahead keeps the first way its body matches. Every quantifier of this program
  repeats a single character class, except one optional group.
\<close>

type_synonym caps = "nat \<Rightarrow> jstring option"

datatype item =
    Ch "cu \<Rightarrow> bool"
  | Star "cu \<Rightarrow> bool"
  | Lazy "cu \<Rightarrow> bool"
  | Opt "item list"
  | Alt "item list" "item list"
  | Grp nat "item list"
  | Close nat jstring
  | Look "item list"
  | Bol
  | Eol

text \<open>
  \<open>mt w r c s\<close> matches the items \<open>r\<close> against the input from the suffix \<open>s\<close> of the whole
  input \<open>w\<close>, with the captures \<open>c\<close> so far; it gives the captures and the input left
  after the match. \<open>Close n s0\<close> ends the group \<open>n\<close> that was entered at \<open>s0\<close>.
\<close>

function mt :: "jstring \<Rightarrow> item list \<Rightarrow> caps \<Rightarrow> jstring \<Rightarrow> (caps \<times> jstring) option" where
  "mt w [] c s = Some (c, s)"
| "mt w (Ch p # r) c [] = None"
| "mt w (Ch p # r) c (a # t) = (if p a then mt w r c t else None)"
| "mt w (Star p # r) c [] = mt w r c []"
| "mt w (Star p # r) c (a # t) =
     (if p a
      then (case mt w (Star p # r) c t of Some x \<Rightarrow> Some x | None \<Rightarrow> mt w r c (a # t))
      else mt w r c (a # t))"
| "mt w (Lazy p # r) c [] = mt w r c []"
| "mt w (Lazy p # r) c (a # t) =
     (case mt w r c (a # t) of
        Some x \<Rightarrow> Some x
      | None \<Rightarrow> if p a then mt w (Lazy p # r) c t else None)"
| "mt w (Opt g # r) c s =
     (case mt w (g @ r) c s of Some x \<Rightarrow> Some x | None \<Rightarrow> mt w r c s)"
| "mt w (Alt g h # r) c s =
     (case mt w (g @ r) c s of Some x \<Rightarrow> Some x | None \<Rightarrow> mt w (h @ r) c s)"
| "mt w (Grp n g # r) c s = mt w (g @ Close n s # r) c s"
| "mt w (Close n s0 # r) c s = mt w r (c(n \<mapsto> take (length s0 - length s) s0)) s"
| "mt w (Look g # r) c s =
     (case mt w g c s of Some (c', _) \<Rightarrow> mt w r c' s | None \<Rightarrow> None)"
| "mt w (Bol # r) c s = (if length s = length w then mt w r c s else None)"
| "mt w (Eol # r) c s = (if s = [] then mt w r c s else None)"
  by pat_completeness auto
termination
  by (relation "measures [\<lambda>(w, r, c, s). size_list size r, \<lambda>(w, r, c, s). length s]") auto

text \<open>
  The result of \<open>String.prototype.match\<close> and of \<open>RegExp.prototype.exec\<close>: the matched
  text (index 0), the groups, and the input before and after the match.
\<close>

record rmatch =
  whole :: jstring
  groups :: caps
  before :: jstring
  after :: jstring

text \<open>The leftmost match at or after the position where the suffix \<open>s\<close> starts.\<close>

fun search :: "jstring \<Rightarrow> item list \<Rightarrow> jstring \<Rightarrow> rmatch option" where
  "search w re [] =
     (case mt w re Map.empty [] of
        Some (c, r) \<Rightarrow> Some \<lparr>whole = [], groups = c, before = w, after = r\<rparr>
      | None \<Rightarrow> None)"
| "search w re (a # t) =
     (case mt w re Map.empty (a # t) of
        Some (c, r) \<Rightarrow>
          Some \<lparr>whole = take (length (a # t) - length r) (a # t), groups = c,
                before = take (length w - length (a # t)) w, after = r\<rparr>
      | None \<Rightarrow> search w re t)"

definition re_match :: "item list \<Rightarrow> jstring \<Rightarrow> rmatch option" where
  "re_match re w = search w re w"

definition re_test :: "item list \<Rightarrow> jstring \<Rightarrow> bool" where
  "re_test re w = (re_match re w \<noteq> None)"

text \<open>\<open>s.replace(re, '')\<close> for a pattern without the \<open>g\<close> flag.\<close>

definition re_remove_first :: "item list \<Rightarrow> jstring \<Rightarrow> jstring" where
  "re_remove_first re w = (case re_match re w of None \<Rightarrow> w | Some m \<Rightarrow> before m @ after m)"

definition lit :: "jstring \<Rightarrow> item list" where
  "lit s = map (\<lambda>x. Ch (one_of [x])) s"

definition lit_i :: "jstring \<Rightarrow> item list" where
  "lit_i s = map (\<lambda>x. Ch (ci x)) s"

definition rep1 :: "(cu \<Rightarrow> bool) \<Rightarrow> item list" where
  "rep1 p = [Ch p, Star p]"

definition rep1_lazy :: "(cu \<Rightarrow> bool) \<Rightarrow> item list" where
  "rep1_lazy p = [Ch p, Lazy p]"

section \<open>The data model\<close>

datatype VisaType = P1A | O1A | O1B | EB1A

datatype CriterionRating = Strong | Adequate | Weak | Insufficient | NotClaimed

datatype OverallRating = Approve | RFELikely | DenialRisk

datatype Quality = Excellent | Good | Fair | Poor

datatype Assessment = StrongEvidence | ModerateEvidence | WeakEvidence | InsufficientEvidence

record Criterion =
  number :: nat
  letter :: string
  name :: string

record CriterionScore =
  criterionNumber :: nat
  criterionName :: string
  rating :: CriterionRating
  score :: number
  evidenceQuality :: Quality
  officerConcerns :: "jstring list"
  strengths :: "jstring list"
  suggestions :: "jstring list"

record RFEPrediction =
  topic :: jstring
  probability :: number
  officerPerspective :: jstring
  suggestedEvidence :: "jstring list"

record EvidenceQuality =
  tier1Count :: number
  tier2Count :: number
  tier3Count :: number
  tier4Count :: number
  overallAssessment :: Assessment
  concerns :: "jstring list"

record Recommendations =
  critical :: "jstring list"
  high :: "jstring list"
  recommended :: "jstring list"

record Probabilities =
  approval :: number
  rfe :: number
  denial :: number

text \<open>
  \<open>RawScoringOutput\<close> without \<open>fullReport\<close>, which is what \<open>parseOfficerReport\<close>
  returns. Its fields \<open>evidenceQuality\<close> and \<open>strengths\<close> carry the suffix \<open>_all\<close>, since
  the per-criterion record has fields of the same names.
\<close>

record RawScoringOutput =
  overallScore :: number
  overallRating :: OverallRating
  approvalProbability :: number
  rfeProbability :: number
  denialRisk :: number
  criteriaScores :: "CriterionScore list"
  evidenceQuality_all :: EvidenceQuality
  rfePredictions :: "RFEPrediction list"
  weaknesses :: "jstring list"
  strengths_all :: "jstring list"
  recommendations :: Recommendations

text \<open>\<open>VISA_CRITERIA\<close>, with one entry written \<open>crit number letter name\<close>.\<close>

definition crit :: "nat \<Rightarrow> string \<Rightarrow> string \<Rightarrow> Criterion" where
  "crit n l t = \<lparr>number = n, letter = l, name = t\<rparr>"

fun VISA_CRITERIA :: "VisaType \<Rightarrow> Criterion list" where
  "VISA_CRITERIA O1A =
    [crit 1 ''A'' ''Nationally or internationally recognized prizes or awards'',
     crit 2 ''B'' ''Membership in associations requiring outstanding achievements'',
     crit 3 ''C'' ''Published material about the beneficiary'',
     crit 4 ''D'' (''Participation as a judge of others'' @ [CHR 0x27] @ '' work''),
     crit 5 ''E'' ''Original contributions of major significance'',
     crit 6 ''F'' ''Authorship of scholarly articles'',
     crit 7 ''G'' ''Employment in a critical or essential capacity'',
     crit 8 ''H'' ''High salary or remuneration'']"
| "VISA_CRITERIA O1B =
    [crit 1 ''A'' ''Performed as a lead or starring participant'',
     crit 2 ''B'' ''Critical reviews or other published material'',
     crit 3 ''C'' ''Performed for organizations with distinguished reputation'',
     crit 4 ''D'' ''Record of major commercial or critically acclaimed successes'',
     crit 5 ''E'' ''Received significant recognition from organizations, critics, or experts'',
     crit 6 ''F'' ''High salary or substantial remuneration'']"
| "VISA_CRITERIA P1A =
    [crit 1 ''A'' ''International recognition in the sport'',
     crit 2 ''B'' ''Significant participation with a major United States sports league'',
     crit 3 ''C'' ''Significant participation in international competition'',
     crit 4 ''D'' ''Significant participation in a prior season with a major U.S. college'',
     crit 5 ''E'' ''Written statement from an official of the sport'',
     crit 6 ''F'' ''International ranking'']"
| "VISA_CRITERIA EB1A =
    [crit 1 ''A'' ''Nationally or internationally recognized prizes or awards'',
     crit 2 ''B'' ''Membership in associations requiring outstanding achievements'',
     crit 3 ''C'' ''Published material about the beneficiary'',
     crit 4 ''D'' (''Participation as a judge of others'' @ [CHR 0x27] @ '' work''),
     crit 5 ''E'' ''Original contributions of major significance'',
     crit 6 ''F'' ''Authorship of scholarly articles'',
     crit 7 ''G'' ''Display of work at artistic exhibitions'',
     crit 8 ''H'' ''Leading or critical role in distinguished organizations'',
     crit 9 ''I'' ''High salary or remuneration'',
     crit 10 ''J'' ''Commercial successes in the performing arts'']"

section \<open>Failures as values\<close>

text \<open>
  \<open>TypeError\<close> is what a method call on an absent group (\<open>undefined\<close>) throws.
  \<open>parseInt\<close> and the subtraction of Numbers do not throw: they can give NaN, which
  would leave a numeric field of the result without a number, so NaN is a failure value
  here. \<open>NonTermination\<close> stands for a loop that never ends.
\<close>

datatype error = TypeError | NotANumber | NonTermination

definition bind :: "error + 'a \<Rightarrow> ('a \<Rightarrow> error + 'b) \<Rightarrow> error + 'b" where
  "bind m f = (case m of Inl e \<Rightarrow> Inl e | Inr x \<Rightarrow> f x)"

text \<open>\<open>parseInt(match[i], 10)\<close>; an absent group is read as the text "undefined".\<close>

definition parseInt10 :: "jstring option \<Rightarrow> error + number" where
  "parseInt10 g =
     (case g of
        None \<Rightarrow> Inl NotANumber
      | Some s \<Rightarrow> (case parseInt s of None \<Rightarrow> Inl NotANumber | Some v \<Rightarrow> Inr v))"

text \<open>The receiver of a method call (\<open>match[i].trim()\<close>, \<open>text.toLowerCase()\<close>, \<open>text.split\<close>).\<close>

text \<open>The difference \<open>x - y\<close> of two Numbers.\<close>

definition minus10 :: "number \<Rightarrow> number \<Rightarrow> error + number" where
  "minus10 x y = (case js_minus x y of None \<Rightarrow> Inl NotANumber | Some d \<Rightarrow> Inr d)"

definition receiver :: "jstring option \<Rightarrow> error + jstring" where
  "receiver g = (case g of None \<Rightarrow> Inl TypeError | Some s \<Rightarrow> Inr s)"

section \<open>The patterns of the report parser\<close>

definition colon_or_space :: "cu \<Rightarrow> bool" where
  "colon_or_space c = (c = 58 \<or> is_space c)"

text \<open>\<open>/\*\*TOTAL\*\*[^|]*\|[^|]*\|[^|]*\|\s*\*?\*?(\d+)\s*\/\s*100/i\<close>\<close>

definition totalMatch_re :: "item list" where
  "totalMatch_re =
     lit_i (js ''**TOTAL**'') @ [Star (none_of (js ''|''))] @ lit_i (js ''|'')
     @ [Star (none_of (js ''|''))] @ lit_i (js ''|'')
     @ [Star (none_of (js ''|''))] @ lit_i (js ''|'')
     @ [Star is_space, Opt (lit_i (js ''*'')), Opt (lit_i (js ''*'')), Grp 1 (rep1 is_digit),
        Star is_space]
     @ lit_i (js ''/'') @ [Star is_space] @ lit_i (js ''100'')"

text \<open>\<open>/overall\s+score[:\s]*(\d+)\s*(?:\/\s*100)?/i\<close>\<close>

definition scoreMatch_re :: "item list" where
  "scoreMatch_re =
     lit_i (js ''overall'') @ rep1 is_space @ lit_i (js ''score'')
     @ [Star colon_or_space, Grp 1 (rep1 is_digit), Star is_space,
        Opt (lit_i (js ''/'') @ [Star is_space] @ lit_i (js ''100''))]"

text \<open>\<open>/\*\*(\d+)\s*\/\s*100\*\*/\<close>\<close>

definition anyScore_re :: "item list" where
  "anyScore_re =
     lit (js ''**'') @ [Grp 1 (rep1 is_digit), Star is_space] @ lit (js ''/'')
     @ [Star is_space] @ lit (js ''100**'')"

text \<open>
  \<open>/approval\s+probability[:\s]*(\d+)\s*%/i\<close>, \<open>/rfe\s+probability[:\s]*(\d+)\s*%/i\<close> and
  \<open>/denial\s+risk[:\s]*(\d+)\s*%/i\<close>
\<close>

definition percent_re :: "string \<Rightarrow> string \<Rightarrow> item list" where
  "percent_re l1 l2 =
     lit_i (js l1) @ rep1 is_space @ lit_i (js l2)
     @ [Star colon_or_space, Grp 1 (rep1 is_digit), Star is_space] @ lit_i (js ''%'')"

definition approvalMatch_re :: "item list" where
  "approvalMatch_re = percent_re ''approval'' ''probability''"

definition rfeMatch_re :: "item list" where
  "rfeMatch_re = percent_re ''rfe'' ''probability''"

definition denialMatch_re :: "item list" where
  "denialMatch_re = percent_re ''denial'' ''risk''"

text \<open>
  The three patterns built for the criterion number \<open>n\<close>, with the \<open>i\<close> flag:
  \<^item> \<open>criterion\s*n[^]*?(?:my\s+rating|rating)[:\s]*([^\n]+)\<close>
  \<^item> \<open>criterion\s*n[^]*?(?:evidence\s+score|score)[:\s]*(\d+)\<close>
  \<^item> \<open>criterion\s*n[^]*?(?:my\s+concerns|concerns)[:\s]*([^#]+?)(?=\n\n|\*\*|$)\<close>
\<close>

definition criterion_anchor :: "nat \<Rightarrow> item list" where
  "criterion_anchor n = lit_i (js ''criterion'') @ [Star is_space] @ lit_i (toString n)"

definition criterionPattern :: "nat \<Rightarrow> item list" where
  "criterionPattern n =
     criterion_anchor n
     @ [Lazy any_cu,
        Alt (lit_i (js ''my'') @ rep1 is_space @ lit_i (js ''rating'')) (lit_i (js ''rating'')),
        Star colon_or_space, Grp 1 (rep1 (none_of [10]))]"

definition scorePattern :: "nat \<Rightarrow> item list" where
  "scorePattern n =
     criterion_anchor n
     @ [Lazy any_cu,
        Alt (lit_i (js ''evidence'') @ rep1 is_space @ lit_i (js ''score''))
            (lit_i (js ''score'')),
        Star colon_or_space, Grp 1 (rep1 is_digit)]"

definition concernsPattern :: "nat \<Rightarrow> item list" where
  "concernsPattern n =
     criterion_anchor n
     @ [Lazy any_cu,
        Alt (lit_i (js ''my'') @ rep1 is_space @ lit_i (js ''concerns''))
            (lit_i (js ''concerns'')),
        Star colon_or_space, Grp 1 (rep1_lazy (none_of (js ''#''))),
        Look [Alt (lit_i [10, 10]) [Alt (lit_i (js ''**'')) [Eol]]]]"

text \<open>\<open>/tier\s*k[^|]*\|\s*(\d+)/i\<close> for \<open>k\<close> from 1 to 4\<close>

definition tierMatch_re :: "string \<Rightarrow> item list" where
  "tierMatch_re k =
     lit_i (js ''tier'') @ [Star is_space] @ lit_i (js k) @ [Star (none_of (js ''|''))]
     @ lit_i (js ''|'') @ [Star is_space, Grp 1 (rep1 is_digit)]"

text \<open>\<open>/evidence.*?concerns[:\s]*([^#]+)/i\<close>\<close>

definition concernsSection_re :: "item list" where
  "concernsSection_re =
     lit_i (js ''evidence'') @ [Lazy dot] @ lit_i (js ''concerns'')
     @ [Star colon_or_space, Grp 1 (rep1 (none_of (js ''#'')))]"

text \<open>\<open>/rfe\s+predictions?[^]*?(?=##|$)/i\<close>\<close>

definition rfeSection_re :: "item list" where
  "rfeSection_re =
     lit_i (js ''rfe'') @ rep1 is_space @ lit_i (js ''prediction'')
     @ [Opt (lit_i (js ''s'')), Lazy any_cu, Look [Alt (lit_i (js ''##'')) [Eol]]]"

text \<open>\<open>/\|\s*([^|]+)\|\s*(\d+)\s*%?\s*\|\s*([^|]+)\|/g\<close>\<close>

definition rowPattern :: "item list" where
  "rowPattern =
     lit (js ''|'') @ [Star is_space, Grp 1 (rep1 (none_of (js ''|'')))] @ lit (js ''|'')
     @ [Star is_space, Grp 2 (rep1 is_digit), Star is_space, Opt (lit (js ''%'')),
        Star is_space]
     @ lit (js ''|'') @ [Star is_space, Grp 3 (rep1 (none_of (js ''|'')))] @ lit (js ''|'')"

text \<open>\<open>/^[-*\<bullet>]/\<close>, \<open>/^\d+\./\<close> and \<open>/^[-*\<bullet>\d.]+\s*/\<close>\<close>

definition bullet_cu :: "cu \<Rightarrow> bool" where
  "bullet_cu c = one_of (js ''-*'' @ [8226]) c"

definition marker_cu :: "cu \<Rightarrow> bool" where
  "marker_cu c = (one_of (js ''-*'' @ [8226]) c \<or> is_digit c \<or> c = 46)"

definition bullet_re :: "item list" where
  "bullet_re = [Bol, Ch bullet_cu]"

definition numbered_re :: "item list" where
  "numbered_re = [Bol] @ rep1 is_digit @ lit (js ''.'')"

definition marker_re :: "item list" where
  "marker_re = [Bol] @ rep1 marker_cu @ [Star is_space]"

text \<open>\<open>keyword[^]*?(?=##|\n\n\n|$)\<close> with the \<open>i\<close> flag\<close>

definition listPattern :: "jstring \<Rightarrow> item list" where
  "listPattern keyword =
     lit_i keyword
     @ [Lazy any_cu, Look [Alt (lit_i (js ''##'')) [Alt (lit_i [10, 10, 10]) [Eol]]]]"

section \<open>The report parser\<close>

definition extractScore :: "jstring \<Rightarrow> error + number" where
  "extractScore report =
     (case re_match totalMatch_re report of
        Some totalMatch \<Rightarrow> parseInt10 (groups totalMatch 1)
      | None \<Rightarrow>
     (case re_match scoreMatch_re report of
        Some scoreMatch \<Rightarrow> parseInt10 (groups scoreMatch 1)
      | None \<Rightarrow>
     (case re_match anyScore_re report of
        Some anyScore \<Rightarrow> parseInt10 (groups anyScore 1)
      | None \<Rightarrow>
        if includes_js (toLowerCase report) (js ''strong approval'')
           \<or> includes_js (toLowerCase report) (js ''approve'') then Inr (Fin 75)
        else if includes_js (toLowerCase report) (js ''rfe likely'') then Inr (Fin 60)
        else if includes_js (toLowerCase report) (js ''denial'')
                \<or> includes_js (toLowerCase report) (js ''major revision'') then Inr (Fin 40)
        else Inr (Fin 55))))"

definition getOverallRating :: "number \<Rightarrow> OverallRating" where
  "getOverallRating s =
     (if s \<ge> Fin 70 then Approve else if s \<ge> Fin 50 then RFELikely else DenialRisk)"

definition calculateApprovalProb :: "number \<Rightarrow> number" where
  "calculateApprovalProb s =
     (if s \<ge> Fin 85 then Fin 85 else if s \<ge> Fin 70 then Fin 65
      else if s \<ge> Fin 55 then Fin 40 else if s \<ge> Fin 40 then Fin 20 else Fin 10)"

definition calculateRFEProb :: "number \<Rightarrow> number" where
  "calculateRFEProb s =
     (if s \<ge> Fin 85 then Fin 10 else if s \<ge> Fin 70 then Fin 25
      else if s \<ge> Fin 55 then Fin 45 else if s \<ge> Fin 40 then Fin 50 else Fin 40)"

definition extractProbabilities :: "jstring \<Rightarrow> number \<Rightarrow> error + Probabilities" where
  "extractProbabilities report overallScore' =
     (let approvalMatch = re_match approvalMatch_re report;
          rfeMatch = re_match rfeMatch_re report;
          denialMatch = re_match denialMatch_re report
      in
      bind (case approvalMatch of
              Some m \<Rightarrow> parseInt10 (groups m 1)
            | None \<Rightarrow> Inr (calculateApprovalProb overallScore')) (\<lambda>a.
      bind (case rfeMatch of
              Some m \<Rightarrow> parseInt10 (groups m 1)
            | None \<Rightarrow> Inr (calculateRFEProb overallScore')) (\<lambda>r.
      bind (case denialMatch of
              Some m \<Rightarrow> parseInt10 (groups m 1)
            | None \<Rightarrow> bind (minus10 (Fin 100) a) (\<lambda>t. minus10 t r)) (\<lambda>d.
      Inr \<lparr>approval = a, rfe = r, denial = max (Fin 0) d\<rparr>))))"

definition parseRating :: "jstring \<Rightarrow> CriterionRating" where
  "parseRating txt =
     (let lower = toLowerCase txt
      in if includes_js lower (js ''strong'') then Strong
         else if includes_js lower (js ''adequate'') then Adequate
         else if includes_js lower (js ''weak'') then Weak
         else if includes_js lower (js ''insufficient'') then Insufficient
         else NotClaimed)"

fun ratingToScore :: "CriterionRating \<Rightarrow> number" where
  "ratingToScore Strong = Fin 85"
| "ratingToScore Adequate = Fin 70"
| "ratingToScore Weak = Fin 50"
| "ratingToScore Insufficient = Fin 30"
| "ratingToScore NotClaimed = Fin 0"

definition scoreToQuality :: "number \<Rightarrow> Quality" where
  "scoreToQuality s =
     (if s \<ge> Fin 80 then Excellent else if s \<ge> Fin 65 then Good
      else if s \<ge> Fin 45 then Fair else Poor)"

text \<open>The body of the loop of \<open>extractBulletPoints\<close>, line by line.\<close>

definition is_bullet_line :: "jstring \<Rightarrow> bool" where
  "is_bullet_line trimmed = (re_test bullet_re trimmed \<or> re_test numbered_re trimmed)"

definition bullet_content :: "jstring \<Rightarrow> jstring" where
  "bullet_content trimmed = trim (re_remove_first marker_re trimmed)"

fun bullet_loop :: "jstring list \<Rightarrow> jstring list" where
  "bullet_loop [] = []"
| "bullet_loop (line # lines) =
     (let trimmed = trim line
      in if is_bullet_line trimmed
         then (let content = bullet_content trimmed
               in if content \<noteq> [] \<and> length content > 5
                  then content # bullet_loop lines
                  else bullet_loop lines)
         else bullet_loop lines)"

definition extractBulletPoints :: "jstring \<Rightarrow> jstring list" where
  "extractBulletPoints txt = bullet_loop (split_nl txt)"

text \<open>One turn of the loop of \<open>extractCriteriaScores\<close>, then the loop.\<close>

definition scoreCriterion :: "jstring \<Rightarrow> Criterion \<Rightarrow> error + CriterionScore" where
  "scoreCriterion report criterion =
     (let ratingMatch = re_match (criterionPattern (number criterion)) report;
          scoreMatch = re_match (scorePattern (number criterion)) report
      in
      bind (case ratingMatch of
              Some m \<Rightarrow> bind (receiver (groups m 1)) (\<lambda>t. Inr (parseRating t))
            | None \<Rightarrow> Inr NotClaimed) (\<lambda>rating'.
      bind (case scoreMatch of
              Some m \<Rightarrow> parseInt10 (groups m 1)
            | None \<Rightarrow> Inr (ratingToScore rating')) (\<lambda>score'.
      bind (case re_match (concernsPattern (number criterion)) report of
              Some m \<Rightarrow> bind (receiver (groups m 1)) (\<lambda>t. Inr (extractBulletPoints t))
            | None \<Rightarrow> Inr []) (\<lambda>concerns'.
      Inr \<lparr>criterionNumber = number criterion,
           criterionName = name criterion,
           rating = rating',
           score = score',
           evidenceQuality = scoreToQuality score',
           officerConcerns = concerns',
           strengths = [],
           suggestions = []\<rparr>))))"

fun scoreCriteria :: "jstring \<Rightarrow> Criterion list \<Rightarrow> error + CriterionScore list" where
  "scoreCriteria report [] = Inr []"
| "scoreCriteria report (criterion # criteria) =
     bind (scoreCriterion report criterion) (\<lambda>x.
     bind (scoreCriteria report criteria) (\<lambda>xs. Inr (x # xs)))"

definition extractCriteriaScores :: "jstring \<Rightarrow> VisaType \<Rightarrow> error + CriterionScore list" where
  "extractCriteriaScores report visaType = scoreCriteria report (VISA_CRITERIA visaType)"

text \<open>
  \<open>extractEvidenceQuality\<close>: the count of one tier, the overall assessment from the first
  two counts, and the record.
\<close>

definition tierCount :: "string \<Rightarrow> jstring \<Rightarrow> error + number" where
  "tierCount k report =
     (case re_match (tierMatch_re k) report of
        Some m \<Rightarrow> parseInt10 (groups m 1)
      | None \<Rightarrow> Inr (Fin 0))"

definition assess :: "number \<Rightarrow> number \<Rightarrow> Assessment" where
  "assess t1 t2 =
     (if t1 \<ge> Fin 5 then StrongEvidence
      else if t1 \<ge> Fin 3 \<or> t2 \<ge> Fin 5 then ModerateEvidence
      else if t1 \<ge> Fin 1 \<or> t2 \<ge> Fin 3 then WeakEvidence
      else InsufficientEvidence)"

definition extractEvidenceQuality :: "jstring \<Rightarrow> error + EvidenceQuality" where
  "extractEvidenceQuality report =
     bind (tierCount ''1'' report) (\<lambda>t1.
     bind (tierCount ''2'' report) (\<lambda>t2.
     bind (tierCount ''3'' report) (\<lambda>t3.
     bind (tierCount ''4'' report) (\<lambda>t4.
     bind (case re_match concernsSection_re report of
             Some m \<Rightarrow> bind (receiver (groups m 1)) (\<lambda>t. Inr (extractBulletPoints t))
           | None \<Rightarrow> Inr []) (\<lambda>cs.
     Inr \<lparr>tier1Count = t1, tier2Count = t2, tier3Count = t3, tier4Count = t4,
          overallAssessment = assess t1 t2, concerns = cs\<rparr>)))))"

text \<open>
  The body of the \<open>while\<close> loop of \<open>extractRFEPredictions\<close> for one match of the row
  pattern: the predictions it pushes (one or none).
\<close>

definition rowPrediction :: "rmatch \<Rightarrow> error + RFEPrediction list" where
  "rowPrediction m =
     bind (receiver (groups m 1)) (\<lambda>g1.
     bind (parseInt10 (groups m 2)) (\<lambda>p.
     bind (receiver (groups m 3)) (\<lambda>g3.
     (let topic' = trim g1; description = trim g3
      in if topic' \<noteq> [] \<and> \<not> includes_js topic' (js ''Topic'')
            \<and> \<not> includes_js topic' (js ''---'')
         then Inr [\<lparr>topic = topic', probability = p, officerPerspective = description,
                    suggestedEvidence = []\<rparr>]
         else Inr []))))"

text \<open>
  The loop itself: \<open>exec\<close> with the \<open>g\<close> flag searches from \<open>lastIndex\<close>, which is the end
  of the previous match. An empty match would leave \<open>lastIndex\<close> where it is and the loop
  would never end; that is the value \<open>None\<close> here.
\<close>

partial_function (option) rowLoop :: "jstring \<Rightarrow> jstring \<Rightarrow> (error + RFEPrediction list) option"
where
  "rowLoop w s =
     (case search w rowPattern s of
        None \<Rightarrow> Some (Inr [])
      | Some m \<Rightarrow>
          (case rowPrediction m of
             Inl e \<Rightarrow> Some (Inl e)
           | Inr ps \<Rightarrow>
               Option.bind (rowLoop w (after m))
                 (\<lambda>rest. Some (bind rest (\<lambda>qs. Inr (ps @ qs))))))"

definition extractRFEPredictions :: "jstring \<Rightarrow> error + RFEPrediction list" where
  "extractRFEPredictions report =
     (case re_match rfeSection_re report of
        None \<Rightarrow> Inr []
      | Some rfeSection \<Rightarrow>
          (case rowLoop (whole rfeSection) (whole rfeSection) of
             None \<Rightarrow> Inl NonTermination
           | Some r \<Rightarrow> r))"

fun extractListItems :: "jstring \<Rightarrow> jstring list \<Rightarrow> jstring list" where
  "extractListItems report [] = []"
| "extractListItems report (keyword # keywords) =
     (case re_match (listPattern keyword) report of
        Some m \<Rightarrow>
          (let items = extractBulletPoints (whole m)
           in if length items > 0 then items else extractListItems report keywords)
      | None \<Rightarrow> extractListItems report keywords)"

definition extractRecommendations :: "jstring \<Rightarrow> Recommendations" where
  "extractRecommendations report =
     \<lparr>critical = extractListItems report [js ''CRITICAL'', js ''MUST DO'', js ''REQUIRED''],
      high = extractListItems report [js ''HIGH PRIORITY'', js ''SHOULD DO'', js ''IMPORTANT''],
      recommended =
        extractListItems report [js ''RECOMMENDED'', js ''WOULD HELP'', js ''SUGGESTED'']\<rparr>"

definition parseOfficerReport :: "jstring \<Rightarrow> VisaType \<Rightarrow> error + RawScoringOutput" where
  "parseOfficerReport report visaType =
     bind (extractScore report) (\<lambda>overallScore'.
     bind (extractProbabilities report overallScore') (\<lambda>probs.
     bind (extractCriteriaScores report visaType) (\<lambda>criteriaScores'.
     bind (extractEvidenceQuality report) (\<lambda>evidenceQuality'.
     bind (extractRFEPredictions report) (\<lambda>rfePredictions'.
     Inr \<lparr>overallScore = overallScore',
          overallRating = getOverallRating overallScore',
          approvalProbability = approval probs,
          rfeProbability = rfe probs,
          denialRisk = denial probs,
          criteriaScores = criteriaScores',
          evidenceQuality_all = evidenceQuality',
          rfePredictions = rfePredictions',
          weaknesses =
            extractListItems report
              [js ''RED FLAGS'', js ''CONCERNS'', js ''WEAKNESSES'', js ''MY CONCERNS''],
          strengths_all =
            extractListItems report [js ''STRENGTHS'', js ''STRONG'', js ''ACKNOWLEDGE''],
          recommendations = extractRecommendations report\<rparr>)))))"

section \<open>Notions used in the statements and proofs\<close>

text \<open>The group numbers that a pattern can write.\<close>

fun ids :: "item \<Rightarrow> nat set" where
  "ids (Opt g) = (\<Union>x\<in>set g. ids x)"
| "ids (Alt g h) = (\<Union>x\<in>set g. ids x) \<union> (\<Union>x\<in>set h. ids x)"
| "ids (Grp n g) = insert n (\<Union>x\<in>set g. ids x)"
| "ids (Close n s) = {n}"
| "ids (Look g) = (\<Union>x\<in>set g. ids x)"
| "ids _ = {}"

definition ids_of :: "item list \<Rightarrow> nat set" where
  "ids_of r = (\<Union>x\<in>set r. ids x)"

text \<open>
  The complement \<open>100 - a - r\<close> floored at 0, for numbers that are not negative: no
  rounding and no NaN can occur on the way, and the result is the exact one.
\<close>

definition complement :: "number \<Rightarrow> number \<Rightarrow> number" where
  "complement a r =
     (case (a, r) of (Fin x, Fin y) \<Rightarrow> Fin (max 0 (100 - x - y)) | _ \<Rightarrow> Fin 0)"

text \<open>What the loop of \<open>extractCriteriaScores\<close> guarantees for one criterion.\<close>

definition criterion_ok :: "jstring \<Rightarrow> Criterion \<Rightarrow> CriterionScore \<Rightarrow> bool" where
  "criterion_ok report cr c =
     (criterionNumber c = number cr \<and> criterionName c = name cr
      \<and> strengths c = [] \<and> suggestions c = []
      \<and> Fin 0 \<le> score c \<and> evidenceQuality c = scoreToQuality (score c)
      \<and> (re_match (scorePattern (number cr)) report = None \<longrightarrow>
           score c = ratingToScore (rating c))
      \<and> (re_match (criterion_anchor (number cr)) report = None \<longrightarrow>
           rating c = NotClaimed \<and> score c = Fin 0 \<and> officerConcerns c = []))"

text \<open>
  Bullet extraction in the words of the specification: a line is kept when, trimmed, it
  starts with a hyphen, an asterisk, a bullet, or digits followed by a full stop, and when
  what is left after the marker is longer than five code units. The marker is the whole
  leading run of hyphens, asterisks, bullets, digits and full stops.
\<close>

definition starts_with_bullet :: "jstring \<Rightarrow> bool" where
  "starts_with_bullet t = (case t of [] \<Rightarrow> False | c # _ \<Rightarrow> c = 45 \<or> c = 42 \<or> c = 8226)"

definition starts_with_numeral_dot :: "jstring \<Rightarrow> bool" where
  "starts_with_numeral_dot t =
     (takeWhile is_digit t \<noteq> []
      \<and> (case dropWhile is_digit t of [] \<Rightarrow> False | c # _ \<Rightarrow> c = 46))"

definition marker_stripped :: "jstring \<Rightarrow> jstring" where
  "marker_stripped t = trim (dropWhile marker_cu t)"

definition kept_line :: "jstring \<Rightarrow> bool" where
  "kept_line line =
     ((starts_with_bullet (trim line) \<or> starts_with_numeral_dot (trim line))
      \<and> length (marker_stripped (trim line)) > 5)"

definition bullets_spec :: "jstring \<Rightarrow> jstring list" where
  "bullets_spec txt = map (\<lambda>l. marker_stripped (trim l)) (filter kept_line (split_nl txt))"

section \<open>Properties of the matcher\<close>

lemma ids_of_simps [simp]:
  "ids_of [] = {}"
  "ids_of (x # r) = ids x \<union> ids_of r"
  "ids_of (r @ r') = ids_of r \<union> ids_of r'"
  by (auto simp: ids_of_def)

lemma ids_fold [simp]: "(\<Union>x\<in>set g. ids x) = ids_of g"
  by (simp add: ids_of_def)

text \<open>A match leaves alone every group that the pattern does not name.\<close>

lemma mt_frame:
  "mt w r c s = Some (c', s') \<Longrightarrow> n \<notin> ids_of r \<Longrightarrow> c' n = c n"
proof (induction w r c s arbitrary: c' s' rule: mt.induct)
  case (12 w g r' c s)
  from 12(3) obtain c1 s1 where g: "mt w g c s = Some (c1, s1)"
    and r: "mt w r' c1 s = Some (c', s')"
    by (auto split: option.splits)
  from 12(4) have "n \<notin> ids_of g" "n \<notin> ids_of r'" by simp_all
  with 12(1)[OF g] 12(2)[OF g refl r] show ?case by simp
qed (auto split: if_splits option.splits)

text \<open>A match never moves backwards in the input.\<close>

lemma mt_length:
  "mt w r c s = Some (c', s') \<Longrightarrow> length s' \<le> length s"
proof (induction w r c s arbitrary: c' s' rule: mt.induct)
  case (3 w p r' c a t)
  from 3(2) have "p a" "mt w r' c t = Some (c', s')" by (auto split: if_splits)
  from 3(1)[OF this] show ?case by simp
next
  case (5 w p r' c a t)
  show ?case
  proof (cases "p a")
    case True
    show ?thesis
    proof (cases "mt w (Star p # r') c t")
      case None
      with True 5(4) have "mt w r' c (a # t) = Some (c', s')" by simp
      from 5(2)[OF True None this] show ?thesis .
    next
      case (Some x)
      with True 5(4) have "mt w (Star p # r') c t = Some (c', s')" by simp
      from 5(1)[OF True this] show ?thesis by simp
    qed
  next
    case False
    with 5(4) have "mt w r' c (a # t) = Some (c', s')" by simp
    from 5(3)[OF False this] show ?thesis .
  qed
next
  case (7 w p r' c a t)
  show ?case
  proof (cases "mt w r' c (a # t)")
    case None
    with 7(3) have "p a" "mt w (Lazy p # r') c t = Some (c', s')"
      by (auto split: if_splits)
    from 7(2)[OF None this] show ?thesis by simp
  next
    case (Some x)
    with 7(3) have "mt w r' c (a # t) = Some (c', s')" by simp
    from 7(1)[OF this] show ?thesis .
  qed
next
  case (8 w g r' c s)
  then show ?case by (cases "mt w (g @ r') c s") auto
next
  case (9 w g h r' c s)
  then show ?case by (cases "mt w (g @ r') c s") auto
next
  case (12 w g r' c s)
  from 12(3) obtain c1 s1 where g: "mt w g c s = Some (c1, s1)"
    and r: "mt w r' c1 s = Some (c', s')"
    by (auto split: option.splits)
  from 12(2)[OF g refl r] show ?case .
next
  case (1 w c s)
  then show ?case by simp
next
  case (2 w p r' c)
  then show ?case by simp
next
  case (4 w p r' c)
  from 4(2) have "mt w r' c [] = Some (c', s')" by simp
  from 4(1)[OF this] show ?case .
next
  case (6 w p r' c)
  from 6(2) have "mt w r' c [] = Some (c', s')" by simp
  from 6(1)[OF this] show ?case .
next
  case (10 w n g r' c s)
  from 10(2) have "mt w (g @ Close n s # r') c s = Some (c', s')" by simp
  from 10(1)[OF this] show ?case .
next
  case (11 w n s0 r' c s)
  from 11(2) have "mt w r' (c(n \<mapsto> take (length s0 - length s) s0)) s = Some (c', s')"
    by simp
  from 11(1)[OF this] show ?case .
next
  case (13 w r' c s)
  from 13(2) have "length s = length w" "mt w r' c s = Some (c', s')"
    by (simp_all split: if_splits)
  from 13(1)[OF this] show ?case .
next
  case (14 w r' c s)
  from 14(2) have "s = []" "mt w r' c s = Some (c', s')"
    by (simp_all split: if_splits)
  from 14(1)[OF this] show ?case .
qed

text \<open>A match of a pattern runs through a match of each of its tails.\<close>

lemma mt_through:
  "mt w xs c s = Some res \<Longrightarrow> xs = pre @ r \<Longrightarrow> \<exists>c1 s1. mt w r c1 s1 = Some res"
proof (induction w xs c s arbitrary: pre rule: mt.induct)
  case (1 w c s)
  then show ?case by auto
next
  case (2 w p r' c)
  from 2(1) show ?case by simp
next
  case (3 w p r' c a t)
  then show ?case by (cases pre) (auto split: if_splits)
next
  case (4 w p r' c)
  then show ?case by (cases pre) auto
next
  case (5 w p r' c a t)
  show ?case
  proof (cases pre)
    case Nil
    with 5 show ?thesis by auto
  next
    case (Cons x pre')
    with 5 show ?thesis
      by (auto split: if_splits option.splits simp: Cons_eq_append_conv)
  qed
next
  case (6 w p r' c)
  then show ?case by (cases pre) auto
next
  case (7 w p r' c a t)
  show ?case
  proof (cases pre)
    case Nil
    with 7 show ?thesis by auto
  next
    case (Cons x pre')
    with 7 show ?thesis
      by (auto split: if_splits option.splits simp: Cons_eq_append_conv)
  qed
next
  case (8 w g r' c s)
  show ?case
  proof (cases pre)
    case Nil
    with 8 show ?thesis by auto
  next
    case (Cons x pre')
    with 8(3,4) have xs: "x = Opt g" "r' = pre' @ r" by auto
    show ?thesis
    proof (cases "mt w (g @ r') c s")
      case None
      with 8(3) have "mt w r' c s = Some res" by simp
      from 8(2)[OF None this xs(2)] show ?thesis .
    next
      case (Some y)
      with 8(3) have "mt w (g @ r') c s = Some res" by simp
      from 8(1)[OF this, of "g @ pre'"] xs show ?thesis by simp
    qed
  qed
next
  case (9 w g h r' c s)
  show ?case
  proof (cases pre)
    case Nil
    with 9 show ?thesis by auto
  next
    case (Cons x pre')
    with 9(3,4) have xs: "x = Alt g h" "r' = pre' @ r" by auto
    show ?thesis
    proof (cases "mt w (g @ r') c s")
      case None
      with 9(3) have "mt w (h @ r') c s = Some res" by simp
      from 9(2)[OF None this, of "h @ pre'"] xs show ?thesis by simp
    next
      case (Some y)
      with 9(3) have "mt w (g @ r') c s = Some res" by simp
      from 9(1)[OF this, of "g @ pre'"] xs show ?thesis by simp
    qed
  qed
next
  case (10 w n g r' c s)
  show ?case
  proof (cases pre)
    case Nil
    with 10 show ?thesis by auto
  next
    case (Cons x pre')
    with 10(2,3) have xs: "x = Grp n g" "r' = pre' @ r" by auto
    from 10(2) have "mt w (g @ Close n s # r') c s = Some res" by simp
    from 10(1)[OF this, of "g @ Close n s # pre'"] xs show ?thesis by simp
  qed
next
  case (11 w n s0 r' c s)
  show ?case
  proof (cases pre)
    case Nil
    with 11 show ?thesis by auto
  next
    case (Cons x pre')
    with 11(3) have xs: "r' = pre' @ r" by simp
    from 11(2) have "mt w r' (c(n \<mapsto> take (length s0 - length s) s0)) s = Some res"
      by simp
    from 11(1)[OF this xs] show ?thesis .
  qed
next
  case (12 w g r' c s)
  show ?case
  proof (cases pre)
    case Nil
    with 12 show ?thesis by auto
  next
    case (Cons x pre')
    with 12 show ?thesis by (auto split: option.splits)
  qed
next
  case (13 w r' c s)
  then show ?case by (cases pre) (auto split: if_splits)
next
  case (14 w r' c s)
  then show ?case by (cases pre) (auto split: if_splits)
qed

text \<open>A match of a pattern starts with a match of each of its prefixes.\<close>

lemma mt_prefix:
  "mt w xs c s = Some res \<Longrightarrow> xs = pre @ r \<Longrightarrow> \<exists>res'. mt w pre c s = Some res'"
proof (induction w xs c s arbitrary: pre rule: mt.induct)
  case (1 w c s)
  then show ?case by simp
next
  case (2 w p r' c)
  from 2(1) show ?case by simp
next
  case (3 w p r' c a t)
  show ?case
  proof (cases pre)
    case Nil
    then show ?thesis by simp
  next
    case (Cons x pre')
    with 3(3) have xs: "x = Ch p" "r' = pre' @ r" by simp_all
    from 3(2) have pa: "p a" and m: "mt w r' c t = Some res" by (auto split: if_splits)
    from 3(1)[OF pa m xs(2)] pa Cons xs show ?thesis by simp
  qed
next
  case (4 w p r' c)
  show ?case
  proof (cases pre)
    case Nil
    then show ?thesis by simp
  next
    case (Cons x pre')
    with 4(3) have xs: "x = Star p" "r' = pre' @ r" by simp_all
    from 4(2) have m: "mt w r' c [] = Some res" by simp
    from 4(1)[OF m xs(2)] Cons xs show ?thesis by simp
  qed
next
  case (5 w p r' c a t)
  show ?case
  proof (cases pre)
    case Nil
    then show ?thesis by simp
  next
    case (Cons x pre')
    with 5(5) have xs: "x = Star p" "r' = pre' @ r" by simp_all
    have pre: "pre = Star p # pre'" using Cons xs by simp
    show ?thesis
    proof (cases "p a")
      case True
      show ?thesis
      proof (cases "mt w (Star p # r') c t")
        case None
        with True 5(4) have "mt w r' c (a # t) = Some res" by simp
        from 5(2)[OF True None this xs(2)] True pre show ?thesis
          by (cases "mt w (Star p # pre') c t") auto
      next
        case (Some y)
        with True 5(4) have m: "mt w (Star p # r') c t = Some res" by simp
        have "Star p # r' = (Star p # pre') @ r" using xs by simp
        from 5(1)[OF True m this] True pre show ?thesis by auto
      qed
    next
      case False
      with 5(4) have "mt w r' c (a # t) = Some res" by simp
      from 5(3)[OF False this xs(2)] False pre show ?thesis by simp
    qed
  qed
next
  case (6 w p r' c)
  show ?case
  proof (cases pre)
    case Nil
    then show ?thesis by simp
  next
    case (Cons x pre')
    with 6(3) have xs: "x = Lazy p" "r' = pre' @ r" by simp_all
    from 6(2) have m: "mt w r' c [] = Some res" by simp
    from 6(1)[OF m xs(2)] Cons xs show ?thesis by simp
  qed
next
  case (7 w p r' c a t)
  show ?case
  proof (cases pre)
    case Nil
    then show ?thesis by simp
  next
    case (Cons x pre')
    with 7(4) have xs: "x = Lazy p" "r' = pre' @ r" by simp_all
    have pre: "pre = Lazy p # pre'" using Cons xs by simp
    show ?thesis
    proof (cases "mt w r' c (a # t)")
      case None
      with 7(3) have pa: "p a" and m: "mt w (Lazy p # r') c t = Some res"
        by (auto split: if_splits)
      have "Lazy p # r' = (Lazy p # pre') @ r" using xs by simp
      from 7(2)[OF None pa m this] pa pre show ?thesis
        by (cases "mt w pre' c (a # t)") auto
    next
      case (Some y)
      with 7(3) have m: "mt w r' c (a # t) = Some res" by simp
      from 7(1)[OF m xs(2)] pre show ?thesis by auto
    qed
  qed
next
  case (8 w g r' c s)
  show ?case
  proof (cases pre)
    case Nil
    then show ?thesis by simp
  next
    case (Cons x pre')
    with 8(4) have xs: "x = Opt g" "r' = pre' @ r" by simp_all
    have pre: "pre = Opt g # pre'" using Cons xs by simp
    show ?thesis
    proof (cases "mt w (g @ r') c s")
      case None
      with 8(3) have "mt w r' c s = Some res" by simp
      from 8(2)[OF None this xs(2)] pre show ?thesis
        by (cases "mt w (g @ pre') c s") auto
    next
      case (Some y)
      with 8(3) have m: "mt w (g @ r') c s = Some res" by simp
      have "g @ r' = (g @ pre') @ r" using xs by simp
      from 8(1)[OF m this] pre show ?thesis by auto
    qed
  qed
next
  case (9 w g h r' c s)
  show ?case
  proof (cases pre)
    case Nil
    then show ?thesis by simp
  next
    case (Cons x pre')
    with 9(4) have xs: "x = Alt g h" "r' = pre' @ r" by simp_all
    have pre: "pre = Alt g h # pre'" using Cons xs by simp
    show ?thesis
    proof (cases "mt w (g @ r') c s")
      case None
      with 9(3) have m: "mt w (h @ r') c s = Some res" by simp
      have "h @ r' = (h @ pre') @ r" using xs by simp
      from 9(2)[OF None m this] pre show ?thesis
        by (cases "mt w (g @ pre') c s") auto
    next
      case (Some y)
      with 9(3) have m: "mt w (g @ r') c s = Some res" by simp
      have "g @ r' = (g @ pre') @ r" using xs by simp
      from 9(1)[OF m this] pre show ?thesis by auto
    qed
  qed
next
  case (10 w n g r' c s)
  show ?case
  proof (cases pre)
    case Nil
    then show ?thesis by simp
  next
    case (Cons x pre')
    with 10(3) have xs: "x = Grp n g" "r' = pre' @ r" by simp_all
    from 10(2) have m: "mt w (g @ Close n s # r') c s = Some res" by simp
    have "g @ Close n s # r' = (g @ Close n s # pre') @ r" using xs by simp
    from 10(1)[OF m this] Cons xs show ?thesis by simp
  qed
next
  case (11 w n s0 r' c s)
  show ?case
  proof (cases pre)
    case Nil
    then show ?thesis by simp
  next
    case (Cons x pre')
    with 11(3) have xs: "x = Close n s0" "r' = pre' @ r" by simp_all
    from 11(2) have "mt w r' (c(n \<mapsto> take (length s0 - length s) s0)) s = Some res"
      by simp
    from 11(1)[OF this xs(2)] obtain res'
      where "mt w pre' (c(n \<mapsto> take (length s0 - length s) s0)) s = Some res'" by blast
    then have "mt w (Close n s0 # pre') c s = Some res'" by simp
    with Cons xs show ?thesis by blast
  qed
next
  case (12 w g r' c s)
  show ?case
  proof (cases pre)
    case Nil
    then show ?thesis by simp
  next
    case (Cons x pre')
    with 12(4) have xs: "x = Look g" "r' = pre' @ r" by simp_all
    from 12(3) obtain c1 s1 where g: "mt w g c s = Some (c1, s1)"
      and m: "mt w r' c1 s = Some res"
      by (auto split: option.splits)
    from 12(2)[OF g refl m xs(2)] g Cons xs show ?thesis by simp
  qed
next
  case (13 w r' c s)
  show ?case
  proof (cases pre)
    case Nil
    then show ?thesis by simp
  next
    case (Cons x pre')
    with 13(3) have xs: "x = Bol" "r' = pre' @ r" by simp_all
    from 13(2) have l: "length s = length w" and m: "mt w r' c s = Some res"
      by (simp_all split: if_splits)
    from 13(1)[OF l m xs(2)] l Cons xs show ?thesis by simp
  qed
next
  case (14 w r' c s)
  show ?case
  proof (cases pre)
    case Nil
    then show ?thesis by simp
  next
    case (Cons x pre')
    with 14(3) have xs: "x = Eol" "r' = pre' @ r" by simp_all
    from 14(2) have l: "s = []" and m: "mt w r' c s = Some res"
      by (simp_all split: if_splits)
    from 14(1)[OF l m xs(2)] l Cons xs show ?thesis by simp
  qed
qed

text \<open>A greedy run that ends a group.\<close>

lemma star_close:
  "mt w (Star p # Close n s0 # post) c t = Some (c', r) \<Longrightarrow> n \<notin> ids_of post \<Longrightarrow>
   \<exists>k. c' n = Some (take k s0) \<and> length s0 - length t \<le> k"
proof (induction t)
  case Nil
  then have "mt w post (c(n \<mapsto> take (length s0) s0)) [] = Some (c', r)" by simp
  from mt_frame[OF this Nil(2)] show ?case by (intro exI[of _ "length s0"]) simp
next
  case (Cons a t)
  have close: "\<exists>k. c' n = Some (take k s0) \<and> length s0 - length (a # t) \<le> k"
    if "mt w (Close n s0 # post) c (a # t) = Some (c', r)"
  proof -
    from that have "mt w post (c(n \<mapsto> take (length s0 - length (a # t)) s0)) (a # t) = Some (c', r)"
      by simp
    from mt_frame[OF this Cons(3)] show ?thesis
      by (intro exI[of _ "length s0 - length (a # t)"]) simp
  qed
  show ?case
  proof (cases "p a")
    case True
    show ?thesis
    proof (cases "mt w (Star p # Close n s0 # post) c t")
      case None
      with True Cons(2) show ?thesis by (intro close) simp
    next
      case (Some y)
      with True Cons(2) have "mt w (Star p # Close n s0 # post) c t = Some (c', r)" by simp
      from Cons(1)[OF this Cons(3)] obtain k where "c' n = Some (take k s0)"
        "length s0 - length t \<le> k" by auto
      then show ?thesis by (intro exI[of _ k]) auto
    qed
  next
    case False
    with Cons(2) show ?thesis by (intro close) simp
  qed
qed

text \<open>A group \<open>(p+)\<close> that the rest of the pattern does not name again holds, after a
  match, a text that starts with a \<open>p\<close>.\<close>

lemma plus_group:
  assumes "mt w (pre @ Grp n (rep1 p) # post) c s = Some (c', r)" and "n \<notin> ids_of post"
  shows "\<exists>a x. c' n = Some (a # x) \<and> p a"
proof -
  from mt_through[OF assms(1) refl] obtain c1 s1
    where m: "mt w (Grp n (rep1 p) # post) c1 s1 = Some (c', r)" by auto
  then have m': "mt w (Ch p # Star p # Close n s1 # post) c1 s1 = Some (c', r)"
    by (simp add: rep1_def)
  then obtain a t where s1: "s1 = a # t" by (cases s1) auto
  with m' have pa: "p a" and st: "mt w (Star p # Close n (a # t) # post) c1 t = Some (c', r)"
    by (auto split: if_splits)
  from star_close[OF st assms(2)] obtain k
    where k: "c' n = Some (take k (a # t))" "length (a # t) - length t \<le> k" by auto
  then obtain k' where "k = Suc k'" by (cases k) auto
  with k pa show ?thesis by auto
qed

text \<open>Any group that the rest of the pattern does not name again is present after a match.\<close>

lemma any_group:
  assumes "mt w (pre @ Grp n g # post) c s = Some (c', r)" and "n \<notin> ids_of post"
  shows "\<exists>x. c' n = Some x"
proof -
  from mt_through[OF assms(1) refl] obtain c1 s1
    where "mt w (Grp n g # post) c1 s1 = Some (c', r)" by auto
  then have "mt w (g @ Close n s1 # post) c1 s1 = Some (c', r)" by simp
  from mt_through[OF this refl] obtain c2 s2
    where "mt w (Close n s1 # post) c2 s2 = Some (c', r)" by auto
  then have "mt w post (c2(n \<mapsto> take (length s1 - length s2) s1)) s2 = Some (c', r)" by simp
  from mt_frame[OF this assms(2)] show ?thesis by simp
qed

text \<open>What a successful search returns.\<close>

lemma search_Some:
  "search w re s = Some m \<Longrightarrow>
   \<exists>s1. length s1 \<le> length s \<and> mt w re Map.empty s1 = Some (groups m, after m)"
proof (induction s)
  case Nil
  then show ?case by (auto split: option.splits)
next
  case (Cons a t)
  show ?case
  proof (cases "mt w re Map.empty (a # t)")
    case None
    with Cons(2) have "search w re t = Some m" by simp
    from Cons(1)[OF this] obtain s1 where "length s1 \<le> length t"
      "mt w re Map.empty s1 = Some (groups m, after m)" by auto
    then show ?thesis by (intro exI[of _ s1]) simp
  next
    case (Some y)
    with Cons(2) have "mt w re Map.empty (a # t) = Some (groups m, after m)"
      by (cases y) auto
    then show ?thesis by (intro exI[of _ "a # t"]) simp
  qed
qed

lemma search_prefix_None:
  "search w pre s = None \<Longrightarrow> search w (pre @ r) s = None"
proof (induction s)
  case Nil
  then have "mt w pre Map.empty [] = None" by (auto split: option.splits)
  with mt_prefix[of w "pre @ r" Map.empty "[]" _ pre r] have "mt w (pre @ r) Map.empty [] = None"
    by (cases "mt w (pre @ r) Map.empty []") auto
  then show ?case by simp
next
  case (Cons a t)
  then have n: "mt w pre Map.empty (a # t) = None" and t: "search w pre t = None"
    by (auto split: option.splits)
  from n mt_prefix[of w "pre @ r" Map.empty "a # t" _ pre r]
  have "mt w (pre @ r) Map.empty (a # t) = None"
    by (cases "mt w (pre @ r) Map.empty (a # t)") auto
  with Cons(1)[OF t] show ?case by simp
qed

section \<open>Properties of numbers\<close>

lemma to_number_small: "\<bar>i\<bar> < 9007199254740992 \<Longrightarrow> to_number i = Fin i"
  by (auto simp: to_number_def to_double_def)

lemma to_number_nonneg: "0 \<le> i \<Longrightarrow> Fin 0 \<le> to_number i"
  by (cases "to_double (nat \<bar>i\<bar>)") (simp_all add: to_number_def)

lemma to_number_nonpos: "i \<le> 0 \<Longrightarrow> to_number i \<le> Fin 0"
  by (cases "to_double (nat \<bar>i\<bar>)") (auto simp: to_number_def to_double_def split: if_splits)

lemma nonpos_minus:
  assumes "t \<le> Fin 0" and "Fin 0 \<le> r"
  shows "\<exists>d. js_minus t r = Some d \<and> d \<le> Fin 0"
proof (cases t)
  case (Fin m)
  with assms show ?thesis
    by (cases r) (simp_all add: to_number_nonpos)
next
  case PosInf
  with assms show ?thesis by simp
next
  case NegInf
  with assms show ?thesis by (cases r) simp_all
qed

lemma complement_exact:
  assumes "Fin 0 \<le> a" and "Fin 0 \<le> r"
  shows "\<exists>d. bind (minus10 (Fin 100) a) (\<lambda>t. minus10 t r) = Inr d
             \<and> max (Fin 0) d = complement a r"
proof -
  have low: ?thesis if t: "minus10 (Fin 100) a = Inr t" "t \<le> Fin 0"
    and c: "complement a r = Fin 0" for t
  proof -
    from nonpos_minus[OF t(2) assms(2)] obtain d where "js_minus t r = Some d" "d \<le> Fin 0"
      by auto
    with t(1) c show ?thesis by (simp add: bind_def minus10_def max_def)
  qed
  show ?thesis
  proof (cases a)
    case (Fin x)
    with assms(1) have x: "0 \<le> x" by simp
    show ?thesis
    proof (cases "x \<le> 100")
      case True
      with x have t: "minus10 (Fin 100) a = Inr (Fin (100 - x))"
        by (simp add: minus10_def Fin to_number_small)
      show ?thesis
      proof (cases r)
        case (Fin y)
        with assms(2) have y: "0 \<le> y" by simp
        show ?thesis
        proof (cases "y \<le> 100 - x")
          case True
          with x y \<open>x \<le> 100\<close> have "to_number (100 - x - y) = Fin (100 - x - y)"
            by (intro to_number_small) simp
          with t True show ?thesis
            by (simp add: bind_def minus10_def Fin \<open>a = Fin x\<close> complement_def max_def)
        next
          case False
          then have "to_number (100 - x - y) \<le> Fin 0" by (intro to_number_nonpos) simp
          with t False show ?thesis
            by (simp add: bind_def minus10_def Fin \<open>a = Fin x\<close> complement_def max_def)
        qed
      next
        case PosInf
        with t show ?thesis
          by (simp add: bind_def minus10_def \<open>a = Fin x\<close> complement_def max_def)
      next
        case NegInf
        with assms(2) show ?thesis by simp
      qed
    next
      case False
      then have t: "to_number (100 - x) \<le> Fin 0" by (intro to_number_nonpos) simp
      have m: "minus10 (Fin 100) a = Inr (to_number (100 - x))"
        by (simp add: minus10_def Fin)
      from False assms(2) have c: "complement a r = Fin 0"
        by (cases r) (simp_all add: complement_def Fin max_def)
      from m t c show ?thesis by (rule low)
    qed
  next
    case PosInf
    have "minus10 (Fin 100) a = Inr NegInf" by (simp add: minus10_def PosInf)
    moreover have "NegInf \<le> Fin 0" by simp
    moreover have "complement a r = Fin 0" by (simp add: complement_def PosInf)
    ultimately show ?thesis by (rule low)
  next
    case NegInf
    with assms(1) show ?thesis by simp
  qed
qed

section \<open>The groups of the parser's patterns\<close>

lemma ids_of_lit [simp]: "ids_of (lit s) = {}" "ids_of (lit_i s) = {}"
  by (simp_all add: ids_of_def lit_def lit_i_def)

lemma ids_of_rep1 [simp]: "ids_of (rep1 p) = {}" "ids_of (rep1_lazy p) = {}"
  by (simp_all add: rep1_def rep1_lazy_def)

lemma parseInt_digit:
  assumes "is_digit a"
  shows "\<exists>v. parseInt (a # x) = Some v \<and> Fin 0 \<le> v"
proof -
  from assms have "\<not> is_space a" "a \<noteq> 45" "a \<noteq> 43"
    by (auto simp: is_digit_def is_space_def)
  with assms show ?thesis by (simp add: parseInt_def Let_def to_number_nonneg)
qed

lemma parseInt10_digit:
  "is_digit a \<Longrightarrow> \<exists>v. parseInt10 (Some (a # x)) = Inr v \<and> Fin 0 \<le> v"
  using parseInt_digit[of a x] by (auto simp: parseInt10_def)

text \<open>A group \<open>(\d+)\<close> of a matched pattern is read by \<open>parseInt\<close> as a number that is
  not negative; any group of a matched pattern is a text.\<close>

lemma search_number:
  assumes "search w re s = Some m" and "re = pre @ Grp n (rep1 is_digit) # post"
    and "n \<notin> ids_of post"
  shows "\<exists>v. parseInt10 (groups m n) = Inr v \<and> Fin 0 \<le> v"
proof -
  from search_Some[OF assms(1)] obtain s1
    where "mt w re Map.empty s1 = Some (groups m, after m)" by auto
  with assms(2) have "mt w (pre @ Grp n (rep1 is_digit) # post) Map.empty s1
      = Some (groups m, after m)" by simp
  from plus_group[OF this assms(3)] obtain a x where "groups m n = Some (a # x)" "is_digit a"
    by auto
  with parseInt10_digit[of a x] show ?thesis by simp
qed

lemma search_text:
  assumes "search w re s = Some m" and "re = pre @ Grp n g # post" and "n \<notin> ids_of post"
  shows "\<exists>x. receiver (groups m n) = Inr x"
proof -
  from search_Some[OF assms(1)] obtain s1
    where "mt w re Map.empty s1 = Some (groups m, after m)" by auto
  with assms(2) have "mt w (pre @ Grp n g # post) Map.empty s1 = Some (groups m, after m)"
    by simp
  from any_group[OF this assms(3)] show ?thesis by (auto simp: receiver_def)
qed

lemma totalMatch_number:
  "re_match totalMatch_re w = Some m \<Longrightarrow> \<exists>v. parseInt10 (groups m 1) = Inr v \<and> Fin 0 \<le> v"
  unfolding re_match_def
  by (erule search_number[where post = "[Star is_space] @ lit_i (js ''/'') @ [Star is_space] @ lit_i (js ''100'')"])
     (simp_all add: totalMatch_re_def)

lemma scoreMatch_number:
  "re_match scoreMatch_re w = Some m \<Longrightarrow> \<exists>v. parseInt10 (groups m 1) = Inr v \<and> Fin 0 \<le> v"
  unfolding re_match_def
  by (erule search_number[where post = "[Star is_space, Opt (lit_i (js ''/'') @ [Star is_space] @ lit_i (js ''100''))]"])
     (simp_all add: scoreMatch_re_def)

lemma anyScore_number:
  "re_match anyScore_re w = Some m \<Longrightarrow> \<exists>v. parseInt10 (groups m 1) = Inr v \<and> Fin 0 \<le> v"
  unfolding re_match_def
  by (erule search_number[where post = "[Star is_space] @ lit (js ''/'') @ [Star is_space] @ lit (js ''100**'')"])
     (simp_all add: anyScore_re_def)

lemma percent_number:
  "re_match (percent_re l1 l2) w = Some m \<Longrightarrow> \<exists>v. parseInt10 (groups m 1) = Inr v \<and> Fin 0 \<le> v"
  unfolding re_match_def
  by (erule search_number[where post = "[Star is_space] @ lit_i (js ''%'')"])
     (simp_all add: percent_re_def)

lemma scorePattern_number:
  "re_match (scorePattern k) w = Some m \<Longrightarrow> \<exists>v. parseInt10 (groups m 1) = Inr v \<and> Fin 0 \<le> v"
  unfolding re_match_def
  by (erule search_number[where post = "[]"]) (simp_all add: scorePattern_def)

lemma tierMatch_number:
  "re_match (tierMatch_re k) w = Some m \<Longrightarrow> \<exists>v. parseInt10 (groups m 1) = Inr v \<and> Fin 0 \<le> v"
  unfolding re_match_def
  by (erule search_number[where post = "[]"]) (simp_all add: tierMatch_re_def)

lemma criterionPattern_text:
  "re_match (criterionPattern k) w = Some m \<Longrightarrow> \<exists>x. receiver (groups m 1) = Inr x"
  unfolding re_match_def
  by (erule search_text[where post = "[]"]) (simp_all add: criterionPattern_def)

lemma concernsPattern_text:
  "re_match (concernsPattern k) w = Some m \<Longrightarrow> \<exists>x. receiver (groups m 1) = Inr x"
  unfolding re_match_def
  by (erule search_text[where post = "[Look [Alt (lit_i [10, 10]) [Alt (lit_i (js ''**'')) [Eol]]]]"])
     (simp_all add: concernsPattern_def)

lemma concernsSection_text:
  "re_match concernsSection_re w = Some m \<Longrightarrow> \<exists>x. receiver (groups m 1) = Inr x"
  unfolding re_match_def
  by (erule search_text[where post = "[]"]) (simp_all add: concernsSection_re_def)

section \<open>Every extractor returns\<close>

text \<open>A match of the row pattern is never empty, so the loop over the rows ends.\<close>

lemma mt_Ch_shorter:
  assumes "mt w (Ch p # r) c s = Some (c', s')"
  shows "length s' < length s"
proof (cases s)
  case Nil
  with assms show ?thesis by simp
next
  case (Cons a t)
  with assms have "mt w r c t = Some (c', s')" by (simp split: if_splits)
  from mt_length[OF this] Cons show ?thesis by simp
qed

lemma rowPattern_shorter:
  assumes "search w rowPattern s = Some m"
  shows "length (after m) < length s"
proof -
  from search_Some[OF assms] obtain s1 where s1: "length s1 \<le> length s"
    and m: "mt w rowPattern Map.empty s1 = Some (groups m, after m)" by auto
  have "\<exists>p r. rowPattern = Ch p # r" by (simp add: rowPattern_def lit_def js_def)
  then obtain p r where "rowPattern = Ch p # r" by auto
  with m mt_Ch_shorter[of w p r Map.empty s1 "groups m" "after m"] s1 show ?thesis by simp
qed

lemma rowPrediction_returns:
  assumes "search w rowPattern s = Some m"
  shows "\<exists>ps. rowPrediction m = Inr ps"
proof -
  have "\<exists>x. receiver (groups m 1) = Inr x"
    by (rule search_text[OF assms, where pre = "lit (js ''|'') @ [Star is_space]"
          and post = "lit (js ''|'') @ [Star is_space, Grp 2 (rep1 is_digit), Star is_space,
             Opt (lit (js ''%'')), Star is_space] @ lit (js ''|'')
             @ [Star is_space, Grp 3 (rep1 (none_of (js ''|'')))] @ lit (js ''|'')"])
       (simp_all add: rowPattern_def)
  moreover have "\<exists>v. parseInt10 (groups m 2) = Inr v \<and> Fin 0 \<le> v"
    by (rule search_number[OF assms, where post = "[Star is_space,
             Opt (lit (js ''%'')), Star is_space] @ lit (js ''|'')
             @ [Star is_space, Grp 3 (rep1 (none_of (js ''|'')))] @ lit (js ''|'')"])
       (simp_all add: rowPattern_def)
  moreover have "\<exists>x. receiver (groups m 3) = Inr x"
    by (rule search_text[OF assms, where post = "lit (js ''|'')"])
       (simp_all add: rowPattern_def)
  ultimately show ?thesis by (auto simp: rowPrediction_def bind_def Let_def)
qed

lemma rowLoop_returns: "\<exists>ps. rowLoop w s = Some (Inr ps)"
proof (induction s rule: measure_induct_rule[of length])
  case (less s)
  show ?case
  proof (cases "search w rowPattern s")
    case None
    then show ?thesis by (subst rowLoop.simps) simp
  next
    case (Some m)
    from rowPrediction_returns[OF Some] obtain ps where ps: "rowPrediction m = Inr ps" by auto
    from less[OF rowPattern_shorter[OF Some]] obtain qs
      where "rowLoop w (after m) = Some (Inr qs)" by auto
    with Some ps show ?thesis by (subst rowLoop.simps) (simp add: bind_def)
  qed
qed

lemma extractRFEPredictions_returns: "\<exists>ps. extractRFEPredictions report = Inr ps"
proof (cases "re_match rfeSection_re report")
  case None
  then show ?thesis by (simp add: extractRFEPredictions_def)
next
  case (Some m)
  with rowLoop_returns[of "whole m" "whole m"] show ?thesis
    by (auto simp: extractRFEPredictions_def)
qed

lemma extractScore_returns: "\<exists>v. extractScore report = Inr v \<and> Fin 0 \<le> v"
proof (cases "re_match totalMatch_re report")
  case (Some m)
  with totalMatch_number[OF Some] show ?thesis by (simp add: extractScore_def)
next
  case n1: None
  show ?thesis
  proof (cases "re_match scoreMatch_re report")
    case (Some m)
    with n1 scoreMatch_number[OF Some] show ?thesis by (simp add: extractScore_def)
  next
    case n2: None
    show ?thesis
    proof (cases "re_match anyScore_re report")
      case (Some m)
      with n1 n2 anyScore_number[OF Some] show ?thesis by (simp add: extractScore_def)
    next
      case None
      with n1 n2 show ?thesis by (simp add: extractScore_def)
    qed
  qed
qed

lemma calculate_bounds:
  "Fin 0 \<le> calculateApprovalProb s" "calculateApprovalProb s \<le> Fin 100"
  "Fin 0 \<le> calculateRFEProb s" "calculateRFEProb s \<le> Fin 100"
  by (simp_all add: calculateApprovalProb_def calculateRFEProb_def)

text \<open>A percentage: the number read when the pattern matches, the fallback otherwise.\<close>

lemma percent_or_default:
  assumes "dflt = Inr d" and "Fin 0 \<le> d \<or> \<not> nonneg"
  shows "\<exists>v. (case re_match (percent_re l1 l2) report of
              Some m \<Rightarrow> parseInt10 (groups m 1)
            | None \<Rightarrow> dflt) = Inr v \<and> (nonneg \<longrightarrow> Fin 0 \<le> v)
            \<and> (re_match (percent_re l1 l2) report = None \<longrightarrow> v = d)
            \<and> (\<forall>m. re_match (percent_re l1 l2) report = Some m \<longrightarrow>
                  parseInt10 (groups m 1) = Inr v \<and> Fin 0 \<le> v)"
proof (cases "re_match (percent_re l1 l2) report")
  case None
  with assms show ?thesis by auto
next
  case (Some m)
  with percent_number[OF Some] show ?thesis by auto
qed

lemma complement_bounds:
  assumes "Fin 0 \<le> a" and "Fin 0 \<le> r"
  shows "Fin 0 \<le> complement a r" and "complement a r \<le> Fin 100"
  using assms by (cases a; cases r; simp add: complement_def)+

lemma extractProbabilities_returns:
  "\<exists>p. extractProbabilities report s = Inr p
     \<and> Fin 0 \<le> approval p \<and> Fin 0 \<le> rfe p \<and> Fin 0 \<le> denial p
     \<and> (re_match approvalMatch_re report = None \<longrightarrow> approval p = calculateApprovalProb s)
     \<and> (re_match rfeMatch_re report = None \<longrightarrow> rfe p = calculateRFEProb s)
     \<and> (re_match denialMatch_re report = None \<longrightarrow>
          denial p = complement (approval p) (rfe p))
     \<and> (\<forall>m. re_match approvalMatch_re report = Some m \<longrightarrow>
           parseInt10 (groups m 1) = Inr (approval p))
     \<and> (\<forall>m. re_match rfeMatch_re report = Some m \<longrightarrow>
           parseInt10 (groups m 1) = Inr (rfe p))
     \<and> (\<forall>m. re_match denialMatch_re report = Some m \<longrightarrow>
           parseInt10 (groups m 1) = Inr (denial p))"
proof -
  from percent_or_default[OF refl, of "calculateApprovalProb s" True "''approval''"
      "''probability''" report]
  obtain va where va: "(case re_match approvalMatch_re report of
              Some m \<Rightarrow> parseInt10 (groups m 1)
            | None \<Rightarrow> Inr (calculateApprovalProb s)) = Inr va" "Fin 0 \<le> va"
            "re_match approvalMatch_re report = None \<longrightarrow> va = calculateApprovalProb s"
            "\<forall>m. re_match approvalMatch_re report = Some m \<longrightarrow>
                  parseInt10 (groups m 1) = Inr va"
    unfolding approvalMatch_re_def using calculate_bounds(1)[of s] by auto
  from percent_or_default[OF refl, of "calculateRFEProb s" True "''rfe''" "''probability''"
      report]
  obtain vr where vr: "(case re_match rfeMatch_re report of
              Some m \<Rightarrow> parseInt10 (groups m 1)
            | None \<Rightarrow> Inr (calculateRFEProb s)) = Inr vr" "Fin 0 \<le> vr"
            "re_match rfeMatch_re report = None \<longrightarrow> vr = calculateRFEProb s"
            "\<forall>m. re_match rfeMatch_re report = Some m \<longrightarrow>
                  parseInt10 (groups m 1) = Inr vr"
    unfolding rfeMatch_re_def using calculate_bounds(3)[of s] by auto
  from complement_exact[OF va(2) vr(2)] obtain d0
    where d0: "bind (minus10 (Fin 100) va) (\<lambda>t. minus10 t vr) = Inr d0"
      "max (Fin 0) d0 = complement va vr" by auto
  from percent_or_default[OF d0(1), of False "''denial''" "''risk''" report]
  obtain vd where vd: "(case re_match denialMatch_re report of
              Some m \<Rightarrow> parseInt10 (groups m 1)
            | None \<Rightarrow> bind (minus10 (Fin 100) va) (\<lambda>t. minus10 t vr)) = Inr vd"
            "re_match denialMatch_re report = None \<longrightarrow> vd = d0"
            "\<forall>m. re_match denialMatch_re report = Some m \<longrightarrow>
                  parseInt10 (groups m 1) = Inr vd \<and> Fin 0 \<le> vd"
    unfolding denialMatch_re_def by auto
  have e: "extractProbabilities report s
      = Inr \<lparr>approval = va, rfe = vr, denial = max (Fin 0) vd\<rparr>"
    by (simp add: extractProbabilities_def Let_def bind_def va(1) vr(1) vd(1))
  from vd(3) have rd: "\<forall>m. re_match denialMatch_re report = Some m \<longrightarrow>
                  parseInt10 (groups m 1) = Inr (max (Fin 0) vd)"
    by (auto simp: max_def)
  from vd(2) d0(2) have dd: "re_match denialMatch_re report = None \<longrightarrow>
          max (Fin 0) vd = complement va vr" by auto
  have "Fin 0 \<le> max (Fin 0) vd" by simp
  with e rd dd va(2-4) vr(2-4) show ?thesis by simp
qed

lemma ratingToScore_bounds: "Fin 0 \<le> ratingToScore x" "ratingToScore x \<le> Fin 100"
  by (cases x; simp)+

lemma anchor_None:
  assumes "re_match (criterion_anchor n) report = None"
  shows "re_match (criterionPattern n) report = None"
    and "re_match (scorePattern n) report = None"
    and "re_match (concernsPattern n) report = None"
  using assms search_prefix_None[of report "criterion_anchor n" report]
  by (simp_all add: re_match_def criterionPattern_def scorePattern_def concernsPattern_def)

lemma scoreCriterion_returns:
  "\<exists>c. scoreCriterion report cr = Inr c \<and> criterion_ok report cr c"
proof -
  let ?n = "number cr"
  have "\<exists>rt. (case re_match (criterionPattern ?n) report of
              Some m \<Rightarrow> bind (receiver (groups m 1)) (\<lambda>t. Inr (parseRating t))
            | None \<Rightarrow> Inr NotClaimed) = Inr rt
         \<and> (re_match (criterionPattern ?n) report = None \<longrightarrow> rt = NotClaimed)"
  proof (cases "re_match (criterionPattern ?n) report")
    case None
    then show ?thesis by simp
  next
    case (Some m)
    with criterionPattern_text[OF Some] show ?thesis by (auto simp: bind_def)
  qed
  then obtain rt where rt: "(case re_match (criterionPattern ?n) report of
              Some m \<Rightarrow> bind (receiver (groups m 1)) (\<lambda>t. Inr (parseRating t))
            | None \<Rightarrow> Inr NotClaimed) = Inr rt"
     "re_match (criterionPattern ?n) report = None \<longrightarrow> rt = NotClaimed" by auto
  have "\<exists>sc. (case re_match (scorePattern ?n) report of
              Some m \<Rightarrow> parseInt10 (groups m 1)
            | None \<Rightarrow> Inr (ratingToScore rt)) = Inr sc \<and> Fin 0 \<le> sc
         \<and> (re_match (scorePattern ?n) report = None \<longrightarrow> sc = ratingToScore rt)"
  proof (cases "re_match (scorePattern ?n) report")
    case None
    then show ?thesis by (simp add: ratingToScore_bounds)
  next
    case (Some m)
    with scorePattern_number[OF Some] show ?thesis by auto
  qed
  then obtain sc where sc: "(case re_match (scorePattern ?n) report of
              Some m \<Rightarrow> parseInt10 (groups m 1)
            | None \<Rightarrow> Inr (ratingToScore rt)) = Inr sc" "Fin 0 \<le> sc"
     "re_match (scorePattern ?n) report = None \<longrightarrow> sc = ratingToScore rt" by auto
  have "\<exists>cn. (case re_match (concernsPattern ?n) report of
              Some m \<Rightarrow> bind (receiver (groups m 1)) (\<lambda>t. Inr (extractBulletPoints t))
            | None \<Rightarrow> Inr []) = Inr cn
         \<and> (re_match (concernsPattern ?n) report = None \<longrightarrow> cn = [])"
  proof (cases "re_match (concernsPattern ?n) report")
    case None
    then show ?thesis by simp
  next
    case (Some m)
    with concernsPattern_text[OF Some] show ?thesis by (auto simp: bind_def)
  qed
  then obtain cn where cn: "(case re_match (concernsPattern ?n) report of
              Some m \<Rightarrow> bind (receiver (groups m 1)) (\<lambda>t. Inr (extractBulletPoints t))
            | None \<Rightarrow> Inr []) = Inr cn"
     "re_match (concernsPattern ?n) report = None \<longrightarrow> cn = []" by auto
  have "scoreCriterion report cr =
      Inr \<lparr>criterionNumber = ?n, criterionName = name cr, rating = rt, score = sc,
           evidenceQuality = scoreToQuality sc, officerConcerns = cn,
           strengths = [], suggestions = []\<rparr>"
    by (simp add: scoreCriterion_def Let_def bind_def rt(1) sc(1) cn(1))
  moreover have "criterion_ok report cr
      \<lparr>criterionNumber = ?n, criterionName = name cr, rating = rt, score = sc,
           evidenceQuality = scoreToQuality sc, officerConcerns = cn,
           strengths = [], suggestions = []\<rparr>"
    using rt(2) sc(2,3) cn(2) anchor_None[of ?n report] by (simp add: criterion_ok_def)
  ultimately show ?thesis by simp
qed

lemma scoreCriteria_returns:
  "\<exists>cs. scoreCriteria report crs = Inr cs \<and> list_all2 (criterion_ok report) crs cs"
proof (induction crs)
  case Nil
  then show ?case by simp
next
  case (Cons cr crs)
  from scoreCriterion_returns[of report cr] obtain c
    where c: "scoreCriterion report cr = Inr c" "criterion_ok report cr c" by auto
  from Cons obtain cs
    where cs: "scoreCriteria report crs = Inr cs" "list_all2 (criterion_ok report) crs cs" by auto
  from c cs show ?case by (simp add: bind_def)
qed

lemma extractCriteriaScores_returns:
  "\<exists>cs. extractCriteriaScores report v = Inr cs
        \<and> list_all2 (criterion_ok report) (VISA_CRITERIA v) cs"
  using scoreCriteria_returns[of report "VISA_CRITERIA v"] by (simp add: extractCriteriaScores_def)

lemma tierCount_returns:
  "\<exists>n. tierCount k report = Inr n \<and> Fin 0 \<le> n
       \<and> (re_match (tierMatch_re k) report = None \<longrightarrow> n = Fin 0)"
proof (cases "re_match (tierMatch_re k) report")
  case None
  then show ?thesis by (simp add: tierCount_def)
next
  case (Some m)
  with tierMatch_number[OF Some] show ?thesis by (auto simp: tierCount_def)
qed

lemma extractEvidenceQuality_returns:
  "\<exists>e. extractEvidenceQuality report = Inr e
       \<and> tierCount ''1'' report = Inr (tier1Count e) \<and> tierCount ''2'' report = Inr (tier2Count e)
       \<and> tierCount ''3'' report = Inr (tier3Count e) \<and> tierCount ''4'' report = Inr (tier4Count e)
       \<and> overallAssessment e = assess (tier1Count e) (tier2Count e)"
proof -
  obtain t1 t2 t3 t4 where t: "tierCount ''1'' report = Inr t1" "tierCount ''2'' report = Inr t2"
    "tierCount ''3'' report = Inr t3" "tierCount ''4'' report = Inr t4"
    using tierCount_returns[of "''1''" report] tierCount_returns[of "''2''" report]
      tierCount_returns[of "''3''" report] tierCount_returns[of "''4''" report] by blast
  have "\<exists>cn. (case re_match concernsSection_re report of
             Some m \<Rightarrow> bind (receiver (groups m 1)) (\<lambda>t. Inr (extractBulletPoints t))
           | None \<Rightarrow> Inr []) = Inr cn"
  proof (cases "re_match concernsSection_re report")
    case None
    then show ?thesis by simp
  next
    case (Some m)
    with concernsSection_text[OF Some] show ?thesis by (auto simp: bind_def)
  qed
  then obtain cn where "(case re_match concernsSection_re report of
             Some m \<Rightarrow> bind (receiver (groups m 1)) (\<lambda>t. Inr (extractBulletPoints t))
           | None \<Rightarrow> Inr []) = Inr cn" by auto
  with t show ?thesis by (simp add: extractEvidenceQuality_def bind_def)
qed

text \<open>The parser returns a result for every report and every visa type.\<close>

lemma parseOfficerReport_returns:
  "\<exists>s p cs e ps.
     extractScore report = Inr s \<and> extractProbabilities report s = Inr p
     \<and> extractCriteriaScores report v = Inr cs \<and> extractEvidenceQuality report = Inr e
     \<and> extractRFEPredictions report = Inr ps
     \<and> parseOfficerReport report v =
         Inr \<lparr>overallScore = s,
              overallRating = getOverallRating s,
              approvalProbability = approval p,
              rfeProbability = rfe p,
              denialRisk = denial p,
              criteriaScores = cs,
              evidenceQuality_all = e,
              rfePredictions = ps,
              weaknesses =
                extractListItems report
                  [js ''RED FLAGS'', js ''CONCERNS'', js ''WEAKNESSES'', js ''MY CONCERNS''],
              strengths_all =
                extractListItems report [js ''STRENGTHS'', js ''STRONG'', js ''ACKNOWLEDGE''],
              recommendations = extractRecommendations report\<rparr>"
proof -
  from extractScore_returns[of report] obtain s where s: "extractScore report = Inr s" by auto
  from extractProbabilities_returns[of report s] obtain p
    where p: "extractProbabilities report s = Inr p" by auto
  from extractCriteriaScores_returns[of report v] obtain cs
    where cs: "extractCriteriaScores report v = Inr cs" by auto
  from extractEvidenceQuality_returns[of report] obtain e
    where e: "extractEvidenceQuality report = Inr e" by auto
  from extractRFEPredictions_returns[of report] obtain ps
    where ps: "extractRFEPredictions report = Inr ps" by auto
  from s p cs e ps show ?thesis by (simp add: parseOfficerReport_def bind_def)
qed

section \<open>Bullet extraction without the matcher\<close>

text \<open>A pattern that starts with \<open>^\<close> matches at the start of the input only.\<close>

lemma search_Bol:
  "length s < length w \<Longrightarrow> search w (Bol # r) s = None"
  by (induction s) auto

lemma re_match_Bol:
  "re_match (Bol # r) w =
     (case mt w r Map.empty w of
        None \<Rightarrow> None
      | Some (c, s) \<Rightarrow> Some \<lparr>whole = take (length w - length s) w, groups = c, before = [],
                              after = s\<rparr>)"
  by (cases w) (auto simp: re_match_def search_Bol split: option.splits)

lemma bullet_re_test: "re_test bullet_re t = starts_with_bullet t"
  by (cases t)
     (auto simp: re_test_def bullet_re_def re_match_Bol starts_with_bullet_def bullet_cu_def
        one_of_def js_def)

lemma run_then:
  assumes "\<And>x. d x \<Longrightarrow> \<not> p x"
  shows "(mt w [Star d, Ch p] c s = None)
         = (case dropWhile d s of [] \<Rightarrow> True | x # _ \<Rightarrow> \<not> p x)"
proof (induction s)
  case Nil
  then show ?case by simp
next
  case (Cons a t)
  show ?case
  proof (cases "d a")
    case True
    with assms have "\<not> p a" by simp
    with True Cons show ?thesis
      by (cases "mt w [Star d, Ch p] c t") simp_all
  next
    case False
    then show ?thesis by simp
  qed
qed

lemma numbered_re_test: "re_test numbered_re t = starts_with_numeral_dot t"
proof (cases t)
  case Nil
  then show ?thesis
    by (simp add: re_test_def numbered_re_def re_match_Bol starts_with_numeral_dot_def
        rep1_def lit_def js_def)
next
  case (Cons a t')
  have dot: "is_digit x \<Longrightarrow> \<not> one_of [46] x" for x
    by (auto simp: is_digit_def one_of_def)
  have "re_test numbered_re (a # t')
        = (is_digit a \<and> mt (a # t') [Star is_digit, Ch (one_of [46])] Map.empty t' \<noteq> None)"
    by (cases "mt (a # t') [Star is_digit, Ch (one_of [46])] Map.empty t'")
       (simp_all add: re_test_def numbered_re_def re_match_Bol rep1_def lit_def js_def
          split: prod.splits)
  also have "\<dots> = (is_digit a \<and> (case dropWhile is_digit t' of [] \<Rightarrow> False | x # _ \<Rightarrow> x = 46))"
  proof -
    have r: "(mt (a # t') [Star is_digit, Ch (one_of [46])] Map.empty t' = None)
       = (case dropWhile is_digit t' of [] \<Rightarrow> True | x # _ \<Rightarrow> \<not> one_of [46] x)"
      by (rule run_then) (rule dot)
    show ?thesis
    proof (cases "dropWhile is_digit t'")
      case Nil
      from r have "mt (a # t') [Star is_digit, Ch (one_of [46])] Map.empty t' = None"
        unfolding Nil by simp
      then show ?thesis unfolding Nil by simp
    next
      case (Cons x xs)
      from r have "(mt (a # t') [Star is_digit, Ch (one_of [46])] Map.empty t' = None)
          = (x \<noteq> 46)" unfolding Cons by (simp add: one_of_def)
      then show ?thesis unfolding Cons
        by (cases "mt (a # t') [Star is_digit, Ch (one_of [46])] Map.empty t'") auto
    qed
  qed
  finally show ?thesis using Cons by (simp add: starts_with_numeral_dot_def)
qed

lemma two_runs:
  "mt w [Star p, Star q] c s = Some (c, dropWhile q (dropWhile p s))"
proof -
  have q: "mt w [Star q] c s = Some (c, dropWhile q s)" for s
    by (induction s) auto
  show ?thesis by (induction s) (auto simp: q)
qed

lemma marker_removed:
  assumes "marker_cu a"
  shows "re_remove_first marker_re (a # t) = dropWhile is_space (dropWhile marker_cu t)"
  using assms by (simp add: re_remove_first_def marker_re_def re_match_Bol rep1_def two_runs)

lemma trim_dropWhile: "trim (dropWhile is_space s) = trim s"
  by (simp add: trim_def)

lemma bullet_content_spec:
  assumes "is_bullet_line t"
  shows "bullet_content t = marker_stripped t"
proof (cases t)
  case Nil
  with assms show ?thesis
    by (simp add: is_bullet_line_def bullet_re_test numbered_re_test starts_with_bullet_def
        starts_with_numeral_dot_def)
next
  case (Cons a t')
  with assms have "marker_cu a"
    by (auto simp: is_bullet_line_def bullet_re_test numbered_re_test starts_with_bullet_def
        starts_with_numeral_dot_def marker_cu_def one_of_def js_def split: if_splits)
  with Cons show ?thesis
    by (simp add: bullet_content_def marker_stripped_def marker_removed trim_dropWhile)
qed

lemma bullet_loop_spec:
  "bullet_loop ls = map (\<lambda>l. marker_stripped (trim l)) (filter kept_line ls)"
proof (induction ls)
  case Nil
  then show ?case by simp
next
  case (Cons l ls)
  show ?case
  proof (cases "is_bullet_line (trim l)")
    case True
    from bullet_content_spec[OF True] True Cons show ?thesis
      by (auto simp: kept_line_def Let_def is_bullet_line_def bullet_re_test numbered_re_test)
  next
    case False
    with Cons show ?thesis
      by (auto simp: kept_line_def Let_def is_bullet_line_def bullet_re_test numbered_re_test)
  qed
qed

section \<open>Evaluation on concrete reports\<close>

lemmas eval_chars = js_def is_digit_def is_space_def dot_def any_cu_def one_of_def none_of_def
  upper_def ci_def colon_or_space_def bullet_cu_def marker_cu_def lower_cu_def toLowerCase_def

lemmas eval_patterns = lit_def lit_i_def rep1_def rep1_lazy_def totalMatch_re_def
  scoreMatch_re_def anyScore_re_def percent_re_def approvalMatch_re_def rfeMatch_re_def
  denialMatch_re_def criterion_anchor_def criterionPattern_def scorePattern_def
  concernsPattern_def tierMatch_re_def concernsSection_re_def rfeSection_re_def rowPattern_def
  bullet_re_def numbered_re_def marker_re_def listPattern_def toString.simps

lemmas eval_parser = re_match_def re_test_def re_remove_first_def trim_def parseInt_def
  mathInt_def to_number_def to_double_def minus10_def max_def parseInt10_def receiver_def bind_def extractScore_def getOverallRating_def
  calculateApprovalProb_def calculateRFEProb_def extractProbabilities_def parseRating_def
  scoreToQuality_def is_bullet_line_def bullet_content_def extractBulletPoints_def
  scoreCriterion_def extractCriteriaScores_def tierCount_def assess_def
  extractEvidenceQuality_def rowPrediction_def extractRFEPredictions_def
  extractRecommendations_def parseOfficerReport_def crit_def rowLoop.simps

text \<open>The parser returns a result, and each field is what its extractor returns.\<close>

lemma parse_fields:
  "\<exists>r p. parseOfficerReport report v = Inr r
     \<and> extractScore report = Inr (overallScore r)
     \<and> overallRating r = getOverallRating (overallScore r)
     \<and> extractProbabilities report (overallScore r) = Inr p
     \<and> approvalProbability r = approval p \<and> rfeProbability r = rfe p
     \<and> denialRisk r = denial p
     \<and> extractCriteriaScores report v = Inr (criteriaScores r)
     \<and> extractEvidenceQuality report = Inr (evidenceQuality_all r)
     \<and> extractRFEPredictions report = Inr (rfePredictions r)"
proof -
  from parseOfficerReport_returns[of report v] obtain s p cs e ps
    where "extractScore report = Inr s" "extractProbabilities report s = Inr p"
      "extractCriteriaScores report v = Inr cs" "extractEvidenceQuality report = Inr e"
      "extractRFEPredictions report = Inr ps"
      "parseOfficerReport report v =
         Inr \<lparr>overallScore = s,
              overallRating = getOverallRating s,
              approvalProbability = approval p,
              rfeProbability = rfe p,
              denialRisk = denial p,
              criteriaScores = cs,
              evidenceQuality_all = e,
              rfePredictions = ps,
              weaknesses =
                extractListItems report
                  [js ''RED FLAGS'', js ''CONCERNS'', js ''WEAKNESSES'', js ''MY CONCERNS''],
              strengths_all =
                extractListItems report [js ''STRENGTHS'', js ''STRONG'', js ''ACKNOWLEDGE''],
              recommendations = extractRecommendations report\<rparr>"
    by blast
  then show ?thesis by simp
qed

lemma criteria_ok:
  assumes "extractCriteriaScores report v = Inr cs"
  shows "list_all2 (criterion_ok report) (VISA_CRITERIA v) cs"
  using extractCriteriaScores_returns[of report v] assms by simp

lemma criteria_ok_member:
  assumes "extractCriteriaScores report v = Inr cs" and "c \<in> set cs"
  shows "\<exists>cr \<in> set (VISA_CRITERIA v). criterion_ok report cr c"
proof -
  from assms(2) obtain i where i: "i < length cs" "c = cs ! i"
    by (auto simp: in_set_conv_nth)
  from criteria_ok[OF assms(1)] i
  have "length (VISA_CRITERIA v) = length cs" "criterion_ok report (VISA_CRITERIA v ! i) c"
    by (simp_all add: list_all2_conv_all_nth)
  with i(1) show ?thesis by (intro bexI[of _ "VISA_CRITERIA v ! i"]) simp_all
qed

lemma criteria_numbers:
  "map number (VISA_CRITERIA v) = [1..<Suc (length (VISA_CRITERIA v))]"
  "length (VISA_CRITERIA O1A) = 8" "length (VISA_CRITERIA EB1A) = 10"
  "length (VISA_CRITERIA O1B) = 6" "length (VISA_CRITERIA P1A) = 6"
  by (cases v; simp add: crit_def upt_rec)+

section \<open>Verified properties of the report parser\<close>

text \<open>
  C1 (amended). Every numeric field of the parsed result is a number that is never NaN
  and never negative. A field that is derived and not read from the report lies between
  0 and 100: the overall score when none of the three score patterns matches, the approval
  and RFE probabilities when their phrases do not match, the denial risk when its phrase
  does not match, and a criterion score when the score pattern of that criterion does not
  match. An approval, RFE or denial percentage that is read from the report is the number
  that \<open>parseInt\<close> reads from its digits, with no upper bound: 250 for
  \<open>Approval Probability: 250%\<close>.
\<close>

theorem numeric_fields_bounds:
  "\<exists>r. parseOfficerReport report v = Inr r
     \<and> Fin 0 \<le> overallScore r \<and> Fin 0 \<le> approvalProbability r \<and> Fin 0 \<le> rfeProbability r
     \<and> Fin 0 \<le> denialRisk r
     \<and> (\<forall>c\<in>set (criteriaScores r). Fin 0 \<le> score c)
     \<and> (re_match totalMatch_re report = None \<and> re_match scoreMatch_re report = None
          \<and> re_match anyScore_re report = None \<longrightarrow> overallScore r \<le> Fin 100)
     \<and> (re_match approvalMatch_re report = None \<longrightarrow> approvalProbability r \<le> Fin 100)
     \<and> (re_match rfeMatch_re report = None \<longrightarrow> rfeProbability r \<le> Fin 100)
     \<and> (re_match denialMatch_re report = None \<longrightarrow> denialRisk r \<le> Fin 100)
     \<and> (\<forall>c\<in>set (criteriaScores r).
           re_match (scorePattern (criterionNumber c)) report = None \<longrightarrow> score c \<le> Fin 100)
     \<and> (\<forall>m. re_match approvalMatch_re report = Some m \<longrightarrow>
           parseInt10 (groups m 1) = Inr (approvalProbability r))
     \<and> (\<forall>m. re_match rfeMatch_re report = Some m \<longrightarrow>
           parseInt10 (groups m 1) = Inr (rfeProbability r))
     \<and> (\<forall>m. re_match denialMatch_re report = Some m \<longrightarrow>
           parseInt10 (groups m 1) = Inr (denialRisk r))"
proof -
  from parse_fields[of report v] obtain r p
    where r: "parseOfficerReport report v = Inr r"
      and s: "extractScore report = Inr (overallScore r)"
      and p: "extractProbabilities report (overallScore r) = Inr p"
      and f: "approvalProbability r = approval p" "rfeProbability r = rfe p"
        "denialRisk r = denial p"
      and cs: "extractCriteriaScores report v = Inr (criteriaScores r)"
    by blast
  from extractScore_returns[of report] s have s0: "Fin 0 \<le> overallScore r" by simp
  have s100: "re_match totalMatch_re report = None \<and> re_match scoreMatch_re report = None
          \<and> re_match anyScore_re report = None \<longrightarrow> overallScore r \<le> Fin 100"
    using s[symmetric] by (auto simp: extractScore_def split: if_splits)
  from extractProbabilities_returns[of report "overallScore r"] p
  have p0: "Fin 0 \<le> approval p" "Fin 0 \<le> rfe p" "Fin 0 \<le> denial p"
    and pa: "re_match approvalMatch_re report = None \<longrightarrow>
          approval p = calculateApprovalProb (overallScore r)"
    and pr: "re_match rfeMatch_re report = None \<longrightarrow> rfe p = calculateRFEProb (overallScore r)"
    and pd: "re_match denialMatch_re report = None \<longrightarrow>
          denial p = complement (approval p) (rfe p)"
    and ra: "\<forall>m. re_match approvalMatch_re report = Some m \<longrightarrow>
           parseInt10 (groups m 1) = Inr (approval p)"
    and rr: "\<forall>m. re_match rfeMatch_re report = Some m \<longrightarrow>
           parseInt10 (groups m 1) = Inr (rfe p)"
    and rd: "\<forall>m. re_match denialMatch_re report = Some m \<longrightarrow>
           parseInt10 (groups m 1) = Inr (denial p)"
    by auto
  from pa calculate_bounds(2)[of "overallScore r"]
  have a100: "re_match approvalMatch_re report = None \<longrightarrow> approval p \<le> Fin 100" by simp
  from pr calculate_bounds(4)[of "overallScore r"]
  have r100: "re_match rfeMatch_re report = None \<longrightarrow> rfe p \<le> Fin 100" by simp
  from pd complement_bounds(2)[OF p0(1,2)]
  have d100: "re_match denialMatch_re report = None \<longrightarrow> denial p \<le> Fin 100"
    by simp
  have c0: "\<forall>c\<in>set (criteriaScores r). Fin 0 \<le> score c"
    and c100: "\<forall>c\<in>set (criteriaScores r).
           re_match (scorePattern (criterionNumber c)) report = None \<longrightarrow> score c \<le> Fin 100"
  proof -
    have "Fin 0 \<le> score c
        \<and> (re_match (scorePattern (criterionNumber c)) report = None \<longrightarrow> score c \<le> Fin 100)"
      if "c \<in> set (criteriaScores r)" for c
    proof -
      from criteria_ok_member[OF cs that] obtain cr where "criterion_ok report cr c" by auto
      then show ?thesis
        using ratingToScore_bounds(2)[of "rating c"] by (auto simp: criterion_ok_def)
    qed
    then show "\<forall>c\<in>set (criteriaScores r). Fin 0 \<le> score c"
      and "\<forall>c\<in>set (criteriaScores r).
           re_match (scorePattern (criterionNumber c)) report = None \<longrightarrow> score c \<le> Fin 100"
      by auto
  qed
  show ?thesis
    using r s0 p0 c0 s100 a100 r100 d100 c100 ra rr rd
    by (intro exI[of _ r] conjI) (simp_all only: f)
qed

theorem numeric_fields_bounds_witness:
  "re_match totalMatch_re (js ''I would approve. RFE probability: 30%'') = None
   \<and> re_match scoreMatch_re (js ''I would approve. RFE probability: 30%'') = None
   \<and> re_match anyScore_re (js ''I would approve. RFE probability: 30%'') = None
   \<and> re_match approvalMatch_re (js ''I would approve. RFE probability: 30%'') = None
   \<and> re_match rfeMatch_re (js ''I would approve. RFE probability: 30%'') \<noteq> None
   \<and> re_match denialMatch_re (js ''I would approve. RFE probability: 30%'') = None
   \<and> (\<exists>r. parseOfficerReport (js ''I would approve. RFE probability: 30%'') O1A = Inr r
         \<and> overallScore r = Fin 75 \<and> approvalProbability r = Fin 65
         \<and> rfeProbability r = Fin 30 \<and> denialRisk r = Fin 5
         \<and> map score (criteriaScores r)
             = [Fin 0, Fin 0, Fin 0, Fin 0, Fin 0, Fin 0, Fin 0, Fin 0]
         \<and> overallScore r \<le> Fin 100 \<and> approvalProbability r \<le> Fin 100 \<and> denialRisk r \<le> Fin 100)"
proof -
  have "map_sum id (\<lambda>r. (overallScore r, approvalProbability r, rfeProbability r, denialRisk r,
           map score (criteriaScores r)))
         (parseOfficerReport (js ''I would approve. RFE probability: 30%'') O1A)
        = Inr (Fin 75, Fin 65, Fin 30, Fin 5,
               [Fin 0, Fin 0, Fin 0, Fin 0, Fin 0, Fin 0, Fin 0, Fin 0])"
    by (simp add: eval_chars eval_patterns eval_parser)
  moreover have "re_match totalMatch_re (js ''I would approve. RFE probability: 30%'') = None"
    "re_match scoreMatch_re (js ''I would approve. RFE probability: 30%'') = None"
    "re_match anyScore_re (js ''I would approve. RFE probability: 30%'') = None"
    "re_match approvalMatch_re (js ''I would approve. RFE probability: 30%'') = None"
    "re_match rfeMatch_re (js ''I would approve. RFE probability: 30%'') \<noteq> None"
    "re_match denialMatch_re (js ''I would approve. RFE probability: 30%'') = None"
    by (simp_all add: eval_chars eval_patterns re_match_def)
  ultimately show ?thesis
    using numeric_fields_bounds[of "js ''I would approve. RFE probability: 30%''" O1A] by auto
qed

theorem approval_probability_not_clamped:
  "map_sum id approvalProbability
     (parseOfficerReport (js ''Approval Probability: 250%'') O1A) = Inr (Fin 250)
   \<and> \<not> (Fin 250 \<le> Fin 100)"
  by (simp add: eval_chars eval_patterns eval_parser)

text \<open>
  C2. For every integer score the overall rating is Approve exactly from 70 up, RFE Likely
  exactly from 50 to 69, and Denial Risk exactly below 50 (an infinite score is rated
  Approve); and the rating of every parsed result is this function of its overall score.
\<close>

theorem overall_rating_thresholds:
  "(getOverallRating (Fin s) = Approve \<longleftrightarrow> 70 \<le> s)
   \<and> (getOverallRating (Fin s) = RFELikely \<longleftrightarrow> 50 \<le> s \<and> s < 70)
   \<and> (getOverallRating (Fin s) = DenialRisk \<longleftrightarrow> s < 50)
   \<and> getOverallRating PosInf = Approve
   \<and> (\<exists>r. parseOfficerReport report v = Inr r
          \<and> overallRating r = getOverallRating (overallScore r))"
proof -
  from parseOfficerReport_returns[of report v]
  have "\<exists>r. parseOfficerReport report v = Inr r
          \<and> overallRating r = getOverallRating (overallScore r)"
    by auto
  then show ?thesis by (simp add: getOverallRating_def)
qed

theorem overall_rating_thresholds_witness:
  "getOverallRating (Fin 70) = Approve \<and> getOverallRating (Fin 69) = RFELikely
   \<and> getOverallRating (Fin 50) = RFELikely \<and> getOverallRating (Fin 49) = DenialRisk
   \<and> (\<exists>r. parseOfficerReport (js ''Overall Score: 69'') O1A = Inr r
          \<and> overallScore r = Fin 69 \<and> overallRating r = RFELikely)"
proof -
  have "map_sum id overallScore (parseOfficerReport (js ''Overall Score: 69'') O1A)
        = Inr (Fin 69)"
    by (simp add: eval_chars eval_patterns eval_parser)
  with overall_rating_thresholds[of 69 "js ''Overall Score: 69''" O1A]
  have "\<exists>r. parseOfficerReport (js ''Overall Score: 69'') O1A = Inr r
          \<and> overallScore r = Fin 69 \<and> overallRating r = RFELikely"
    by auto
  with overall_rating_thresholds[of 70] overall_rating_thresholds[of 50]
    overall_rating_thresholds[of 49] overall_rating_thresholds[of 69]
  show ?thesis by simp
qed

text \<open>
  C3 (a defect of the code). A criterion that the report never mentions is to be recorded
  with rating Not Claimed and score 0. For the visa type EB-1A and the report
  \<open>Criterion 10 Rating: Strong\<close>, which mentions criterion 10 and no other, the parser
  returns the ten records in the defined order, and the record of criterion 1 has rating
  Strong and score 85, as that of criterion 10 has: the pattern \<open>criterion\s*1\<close> sets no
  word boundary after the number and matches the first eleven characters of
  \<open>Criterion 10\<close>. Criteria 2 to 9 are recorded as Not Claimed with score 0.
\<close>

theorem criterion_one_read_from_criterion_ten:
  "map_sum id
     (\<lambda>r. map (\<lambda>c. (criterionNumber c, rating c, score c, officerConcerns c))
        (criteriaScores r))
     (parseOfficerReport (js ''Criterion 10 Rating: Strong'') EB1A)
   = Inr [(1, Strong, Fin 85, []), (2, NotClaimed, Fin 0, []), (3, NotClaimed, Fin 0, []),
          (4, NotClaimed, Fin 0, []), (5, NotClaimed, Fin 0, []), (6, NotClaimed, Fin 0, []),
          (7, NotClaimed, Fin 0, []), (8, NotClaimed, Fin 0, []), (9, NotClaimed, Fin 0, []),
          (10, Strong, Fin 85, [])]"
  by (simp add: eval_chars eval_patterns eval_parser)

text \<open>
  C4. When no explicit denial-risk percentage matches in the report, the denial risk of
  the result is the larger of 0 and 100 minus the approval probability minus the RFE
  probability of the same result, exactly (which is 0 when one of the two is infinite);
  when one matches, the number read there is returned, so the three probabilities need
  not add up to 100.
\<close>

theorem denial_risk_complement:
  "\<exists>r. parseOfficerReport report v = Inr r
     \<and> (re_match denialMatch_re report = None \<longrightarrow>
          denialRisk r = complement (approvalProbability r) (rfeProbability r))
     \<and> (\<forall>a b. re_match denialMatch_re report = None \<and> approvalProbability r = Fin a
             \<and> rfeProbability r = Fin b \<longrightarrow>
           denialRisk r = Fin (max 0 (100 - a - b)))
     \<and> (\<forall>m. re_match denialMatch_re report = Some m \<longrightarrow>
           parseInt10 (groups m 1) = Inr (denialRisk r))"
proof -
  from parse_fields[of report v] obtain r p
    where r: "parseOfficerReport report v = Inr r"
      and p: "extractProbabilities report (overallScore r) = Inr p"
      and f: "approvalProbability r = approval p" "rfeProbability r = rfe p"
        "denialRisk r = denial p"
    by blast
  from extractProbabilities_returns[of report "overallScore r"] p
  have pd: "re_match denialMatch_re report = None \<longrightarrow>
          denial p = complement (approval p) (rfe p)"
    and rd: "\<forall>m. re_match denialMatch_re report = Some m \<longrightarrow>
           parseInt10 (groups m 1) = Inr (denial p)"
    by auto
  from pd f have d1: "re_match denialMatch_re report = None \<longrightarrow>
          denialRisk r = complement (approvalProbability r) (rfeProbability r)"
    by simp
  then have d2: "\<forall>a b. re_match denialMatch_re report = None \<and> approvalProbability r = Fin a
             \<and> rfeProbability r = Fin b \<longrightarrow>
           denialRisk r = Fin (max 0 (100 - a - b))"
    by (simp add: complement_def)
  from rd f have d3: "\<forall>m. re_match denialMatch_re report = Some m \<longrightarrow>
           parseInt10 (groups m 1) = Inr (denialRisk r)"
    by simp
  from r d1 d2 d3 show ?thesis by (intro exI[of _ r] conjI)
qed

theorem denial_risk_complement_witness:
  "re_match denialMatch_re (js ''Approval Probability: 90% RFE Probability: 30%'') = None
   \<and> (\<exists>r. parseOfficerReport (js ''Approval Probability: 90% RFE Probability: 30%'') O1A = Inr r
         \<and> approvalProbability r = Fin 90 \<and> rfeProbability r = Fin 30
         \<and> denialRisk r = Fin 0)
   \<and> re_match denialMatch_re (js ''Approval Probability: 90% RFE Probability: 50% Denial Risk: 30%'')
       \<noteq> None
   \<and> (\<exists>r. parseOfficerReport
              (js ''Approval Probability: 90% RFE Probability: 50% Denial Risk: 30%'') O1A = Inr r
         \<and> approvalProbability r = Fin 90 \<and> rfeProbability r = Fin 50
         \<and> denialRisk r = Fin 30)"
proof -
  have n: "re_match denialMatch_re (js ''Approval Probability: 90% RFE Probability: 30%'') = None"
    by (simp add: eval_chars eval_patterns re_match_def)
  have "map_sum id (\<lambda>r. (approvalProbability r, rfeProbability r))
          (parseOfficerReport (js ''Approval Probability: 90% RFE Probability: 30%'') O1A)
        = Inr (Fin 90, Fin 30)"
    by (simp add: eval_chars eval_patterns eval_parser)
  with n denial_risk_complement[of "js ''Approval Probability: 90% RFE Probability: 30%''" O1A]
  have 1: "\<exists>r. parseOfficerReport (js ''Approval Probability: 90% RFE Probability: 30%'') O1A = Inr r
         \<and> approvalProbability r = Fin 90 \<and> rfeProbability r = Fin 30
         \<and> denialRisk r = Fin 0"
    by auto
  have "map_option (\<lambda>m. parseInt10 (groups m 1))
          (re_match denialMatch_re
             (js ''Approval Probability: 90% RFE Probability: 50% Denial Risk: 30%''))
        = Some (Inr (Fin 30))"
    by (simp add: eval_chars eval_patterns re_match_def parseInt10_def parseInt_def
        mathInt_def to_number_def to_double_def)
  moreover have "map_sum id (\<lambda>r. (approvalProbability r, rfeProbability r))
          (parseOfficerReport
             (js ''Approval Probability: 90% RFE Probability: 50% Denial Risk: 30%'') O1A)
        = Inr (Fin 90, Fin 50)"
    by (simp add: eval_chars eval_patterns eval_parser)
  ultimately have 2: "re_match denialMatch_re
        (js ''Approval Probability: 90% RFE Probability: 50% Denial Risk: 30%'') \<noteq> None
     \<and> (\<exists>r. parseOfficerReport
              (js ''Approval Probability: 90% RFE Probability: 50% Denial Risk: 30%'') O1A = Inr r
         \<and> approvalProbability r = Fin 90 \<and> rfeProbability r = Fin 50
         \<and> denialRisk r = Fin 30)"
    using denial_risk_complement
      [of "js ''Approval Probability: 90% RFE Probability: 50% Denial Risk: 30%''" O1A]
    by auto
  from n 1 2 show ?thesis by blast
qed




text \<open>
  C6 (a defect of the code). A criterion whose section gives a rating and no evidence score
  is to get the score of its rating: 50 and the tier Fair for \<open>My Rating: Weak\<close>. For the
  visa type O-1A and a report of two sections, that of criterion 4 with \<open>My Rating: Weak\<close>
  and no score, and that of criterion 5 with \<open>My Rating: Strong\<close> and
  \<open>Evidence Score: 90\<close>, the parser records criterion 4 with rating Weak, score 90 and tier
  Excellent: the score pattern of criterion 4 scans from \<open>Criterion 4\<close> to the end of the
  report and reads the evidence score of criterion 5. In the same way, when the section
  of criterion 4 is followed by \<open>Overall Score: 72\<close>, criterion 4 is recorded with score 72
  and tier Good.
\<close>

theorem criterion_score_read_from_later_section:
  "map_sum id
     (\<lambda>r. map (\<lambda>c. (criterionNumber c, rating c, score c, evidenceQuality c))
        (criteriaScores r))
     (parseOfficerReport
        (js ''Criterion 4'' @ [10] @ js ''My Rating: Weak'' @ [10, 10]
         @ js ''Criterion 5'' @ [10] @ js ''My Rating: Strong'' @ [10]
         @ js ''Evidence Score: 90'') O1A)
   = Inr [(1, NotClaimed, Fin 0, Poor), (2, NotClaimed, Fin 0, Poor),
          (3, NotClaimed, Fin 0, Poor), (4, Weak, Fin 90, Excellent),
          (5, Strong, Fin 90, Excellent), (6, NotClaimed, Fin 0, Poor),
          (7, NotClaimed, Fin 0, Poor), (8, NotClaimed, Fin 0, Poor)]
   \<and> map_sum id
     (\<lambda>r. map (\<lambda>c. (criterionNumber c, rating c, score c, evidenceQuality c))
        (criteriaScores r))
     (parseOfficerReport
        (js ''Criterion 4'' @ [10] @ js ''My Rating: Weak'' @ [10, 10]
         @ js ''Overall Score: 72'') O1A)
   = Inr [(1, NotClaimed, Fin 0, Poor), (2, NotClaimed, Fin 0, Poor),
          (3, NotClaimed, Fin 0, Poor), (4, Weak, Fin 72, Good),
          (5, NotClaimed, Fin 0, Poor), (6, NotClaimed, Fin 0, Poor),
          (7, NotClaimed, Fin 0, Poor), (8, NotClaimed, Fin 0, Poor)]"
  by (simp add: eval_chars eval_patterns eval_parser)

text \<open>
  C7. Each of the four tier counts whose table-row pattern does not match is 0, and the
  overall assessment follows from the counts by the thresholds in this order: five or more
  tier-1 items Strong; else three tier-1 or five tier-2 items Moderate; else one tier-1 or
  three tier-2 items Weak; else Insufficient.
\<close>

theorem evidence_tiers:
  "\<exists>r. parseOfficerReport report v = Inr r
     \<and> (re_match (tierMatch_re ''1'') report = None \<longrightarrow> tier1Count (evidenceQuality_all r) = Fin 0)
     \<and> (re_match (tierMatch_re ''2'') report = None \<longrightarrow> tier2Count (evidenceQuality_all r) = Fin 0)
     \<and> (re_match (tierMatch_re ''3'') report = None \<longrightarrow> tier3Count (evidenceQuality_all r) = Fin 0)
     \<and> (re_match (tierMatch_re ''4'') report = None \<longrightarrow> tier4Count (evidenceQuality_all r) = Fin 0)
     \<and> overallAssessment (evidenceQuality_all r) =
         (if Fin 5 \<le> tier1Count (evidenceQuality_all r) then StrongEvidence
          else if Fin 3 \<le> tier1Count (evidenceQuality_all r)
                  \<or> Fin 5 \<le> tier2Count (evidenceQuality_all r) then ModerateEvidence
          else if Fin 1 \<le> tier1Count (evidenceQuality_all r)
                  \<or> Fin 3 \<le> tier2Count (evidenceQuality_all r) then WeakEvidence
          else InsufficientEvidence)"
proof -
  from parse_fields[of report v] obtain r
    where r: "parseOfficerReport report v = Inr r"
      and e: "extractEvidenceQuality report = Inr (evidenceQuality_all r)" by blast
  from extractEvidenceQuality_returns[of report] e
  have t: "tierCount ''1'' report = Inr (tier1Count (evidenceQuality_all r))"
    "tierCount ''2'' report = Inr (tier2Count (evidenceQuality_all r))"
    "tierCount ''3'' report = Inr (tier3Count (evidenceQuality_all r))"
    "tierCount ''4'' report = Inr (tier4Count (evidenceQuality_all r))"
    and a: "overallAssessment (evidenceQuality_all r)
       = assess (tier1Count (evidenceQuality_all r)) (tier2Count (evidenceQuality_all r))"
    by auto
  have z: "re_match (tierMatch_re k) report = None \<longrightarrow> n = Fin 0" if "tierCount k report = Inr n"
    for k n using that by (auto simp: tierCount_def)
  from r z[OF t(1)] z[OF t(2)] z[OF t(3)] z[OF t(4)] a show ?thesis
    by (intro exI[of _ r]) (simp add: assess_def)
qed

theorem evidence_tiers_witness:
  "re_match (tierMatch_re ''2'') (js ''Tier 1 | 6'') = None
   \<and> re_match (tierMatch_re ''3'') (js ''Tier 1 | 6'') = None
   \<and> re_match (tierMatch_re ''4'') (js ''Tier 1 | 6'') = None
   \<and> (\<exists>r. parseOfficerReport (js ''Tier 1 | 6'') O1A = Inr r
         \<and> tier1Count (evidenceQuality_all r) = Fin 6
         \<and> tier2Count (evidenceQuality_all r) = Fin 0
         \<and> tier3Count (evidenceQuality_all r) = Fin 0
         \<and> tier4Count (evidenceQuality_all r) = Fin 0
         \<and> overallAssessment (evidenceQuality_all r) = StrongEvidence)"
proof -
  have n: "re_match (tierMatch_re ''2'') (js ''Tier 1 | 6'') = None"
    "re_match (tierMatch_re ''3'') (js ''Tier 1 | 6'') = None"
    "re_match (tierMatch_re ''4'') (js ''Tier 1 | 6'') = None"
    by (simp_all add: eval_chars eval_patterns re_match_def)
  have "map_sum id (\<lambda>r. tier1Count (evidenceQuality_all r))
          (parseOfficerReport (js ''Tier 1 | 6'') O1A) = Inr (Fin 6)"
    by (simp add: eval_chars eval_patterns eval_parser)
  with n evidence_tiers[of "js ''Tier 1 | 6''" O1A] show ?thesis by auto
qed

text \<open>
  C8. For every report, the empty and the malformed ones included, and every visa type,
  the parser returns a fully populated result: no method is called on an absent group, no
  number is NaN, and the loop over the table rows ends. On the empty report every field is
  its default: score 55, the probabilities derived from it, one Not Claimed record with
  score 0 for each criterion, tier counts 0, and empty lists.
\<close>

theorem parser_never_fails:
  "(\<exists>r. parseOfficerReport report v = Inr r)
   \<and> parseOfficerReport [] v =
       Inr \<lparr>overallScore = Fin 55,
            overallRating = RFELikely,
            approvalProbability = Fin 40,
            rfeProbability = Fin 45,
            denialRisk = Fin 15,
            criteriaScores =
              map (\<lambda>cr. \<lparr>criterionNumber = number cr, criterionName = name cr,
                         rating = NotClaimed, score = Fin 0, evidenceQuality = Poor,
                         officerConcerns = [], strengths = [], suggestions = []\<rparr>)
                (VISA_CRITERIA v),
            evidenceQuality_all =
              \<lparr>tier1Count = Fin 0, tier2Count = Fin 0, tier3Count = Fin 0,
               tier4Count = Fin 0,
               overallAssessment = InsufficientEvidence, concerns = []\<rparr>,
            rfePredictions = [],
            weaknesses = [],
            strengths_all = [],
            recommendations = \<lparr>critical = [], high = [], recommended = []\<rparr>\<rparr>"
proof
  from parse_fields[of report v] show "\<exists>r. parseOfficerReport report v = Inr r" by blast
next
  have s: "extractScore [] = Inr (Fin 55)"
    by (simp add: eval_chars eval_patterns eval_parser)
  have p: "extractProbabilities [] (Fin 55)
      = Inr \<lparr>approval = Fin 40, rfe = Fin 45, denial = Fin 15\<rparr>"
    by (simp add: eval_chars eval_patterns eval_parser)
  have c: "scoreCriterion [] cr =
      Inr \<lparr>criterionNumber = number cr, criterionName = name cr,
                         rating = NotClaimed, score = Fin 0, evidenceQuality = Poor,
                         officerConcerns = [], strengths = [], suggestions = []\<rparr>" for cr
    by (simp add: eval_chars eval_patterns eval_parser)
  have cs: "scoreCriteria [] crs =
      Inr (map (\<lambda>cr. \<lparr>criterionNumber = number cr, criterionName = name cr,
                         rating = NotClaimed, score = Fin 0, evidenceQuality = Poor,
                         officerConcerns = [], strengths = [], suggestions = []\<rparr>) crs)" for crs
    by (induction crs) (simp_all add: c bind_def)
  have e: "extractEvidenceQuality [] =
      Inr \<lparr>tier1Count = Fin 0, tier2Count = Fin 0, tier3Count = Fin 0,
               tier4Count = Fin 0,
               overallAssessment = InsufficientEvidence, concerns = []\<rparr>"
    by (simp add: eval_chars eval_patterns eval_parser)
  have f: "extractRFEPredictions [] = Inr []"
    by (simp add: eval_chars eval_patterns eval_parser)
  have w: "extractListItems []
              [js ''RED FLAGS'', js ''CONCERNS'', js ''WEAKNESSES'', js ''MY CONCERNS''] = []"
    "extractListItems [] [js ''STRENGTHS'', js ''STRONG'', js ''ACKNOWLEDGE''] = []"
    "extractListItems [] [js ''CRITICAL'', js ''MUST DO'', js ''REQUIRED''] = []"
    "extractListItems [] [js ''HIGH PRIORITY'', js ''SHOULD DO'', js ''IMPORTANT''] = []"
    "extractListItems [] [js ''RECOMMENDED'', js ''WOULD HELP'', js ''SUGGESTED''] = []"
    by (simp_all add: eval_chars eval_patterns re_match_def)
  show "parseOfficerReport [] v =
       Inr \<lparr>overallScore = Fin 55,
            overallRating = RFELikely,
            approvalProbability = Fin 40,
            rfeProbability = Fin 45,
            denialRisk = Fin 15,
            criteriaScores =
              map (\<lambda>cr. \<lparr>criterionNumber = number cr, criterionName = name cr,
                         rating = NotClaimed, score = Fin 0, evidenceQuality = Poor,
                         officerConcerns = [], strengths = [], suggestions = []\<rparr>)
                (VISA_CRITERIA v),
            evidenceQuality_all =
              \<lparr>tier1Count = Fin 0, tier2Count = Fin 0, tier3Count = Fin 0,
               tier4Count = Fin 0,
               overallAssessment = InsufficientEvidence, concerns = []\<rparr>,
            rfePredictions = [],
            weaknesses = [],
            strengths_all = [],
            recommendations = \<lparr>critical = [], high = [], recommended = []\<rparr>\<rparr>"
    by (simp add: parseOfficerReport_def s p cs e f w bind_def extractCriteriaScores_def
        extractRecommendations_def getOverallRating_def del: extractListItems.simps)
qed

theorem parser_never_fails_witness:
  "\<exists>r. parseOfficerReport (js ''RFE Predictions |Topic|1|x||A|70%|b|'') O1B = Inr r
      \<and> rfePredictions r
          = [\<lparr>topic = js ''A'', probability = Fin 70, officerPerspective = js ''b'',
              suggestedEvidence = []\<rparr>]
      \<and> overallScore r = Fin 55 \<and> length (criteriaScores r) = 6"
proof -
  have "map_sum id (\<lambda>r. (rfePredictions r, overallScore r, length (criteriaScores r)))
          (parseOfficerReport (js ''RFE Predictions |Topic|1|x||A|70%|b|'') O1B)
        = Inr ([\<lparr>topic = js ''A'', probability = Fin 70, officerPerspective = js ''b'',
                  suggestedEvidence = []\<rparr>], Fin 55, 6)"
    by (simp add: eval_chars eval_patterns eval_parser)
  with parser_never_fails[of "js ''RFE Predictions |Topic|1|x||A|70%|b|''" O1B]
  show ?thesis by auto
qed

text \<open>
  C9. Bullet extraction keeps exactly the lines that, trimmed, start with a hyphen, an
  asterisk, a bullet, or digits followed by a full stop, and whose content, after the
  marker is stripped and the rest trimmed, is longer than 5 code units; it returns those
  contents in order. The line "- ok" is dropped and the line
  "- Insufficient documentation of criterion 3" is kept.
\<close>

theorem bullet_extraction:
  "extractBulletPoints txt = bullets_spec txt
   \<and> extractBulletPoints (js ''- ok'') = []
   \<and> extractBulletPoints (js ''- Insufficient documentation of criterion 3'')
       = [js ''Insufficient documentation of criterion 3'']"
proof (intro conjI)
  show "extractBulletPoints txt = bullets_spec txt"
    by (simp add: extractBulletPoints_def bullets_spec_def bullet_loop_spec)
  show "extractBulletPoints (js ''- ok'') = []"
    by (simp add: eval_chars eval_patterns eval_parser)
  show "extractBulletPoints (js ''- Insufficient documentation of criterion 3'')
       = [js ''Insufficient documentation of criterion 3'']"
    by (simp add: eval_chars eval_patterns eval_parser)
qed

theorem bullet_extraction_witness:
  "extractBulletPoints
     (js ''Concerns:'' @ [10] @ js ''  - ok'' @ [10] @ js ''12. Letters are self-serving''
      @ [10] @ [8226] @ js '' No media coverage'' @ [10] @ js ''plain line of text'')
   = [js ''Letters are self-serving'', js ''No media coverage'']"
proof -
  have "bullets_spec
     (js ''Concerns:'' @ [10] @ js ''  - ok'' @ [10] @ js ''12. Letters are self-serving''
      @ [10] @ [8226] @ js '' No media coverage'' @ [10] @ js ''plain line of text'')
   = [js ''Letters are self-serving'', js ''No media coverage'']"
    by (simp add: bullets_spec_def kept_line_def starts_with_bullet_def
        starts_with_numeral_dot_def marker_stripped_def trim_def eval_chars)
  with bullet_extraction
    [of "js ''Concerns:'' @ [10] @ js ''  - ok'' @ [10] @ js ''12. Letters are self-serving''
      @ [10] @ [8226] @ js '' No media coverage'' @ [10] @ js ''plain line of text''"]
  show ?thesis by simp
qed

text \<open>
  C10. For every report and visa type, the strengths and the suggestions of every record
  of the criterion scores are the empty list.
\<close>

theorem criterion_strengths_suggestions_empty:
  "\<exists>r. parseOfficerReport report v = Inr r
     \<and> (\<forall>c\<in>set (criteriaScores r). strengths c = [] \<and> suggestions c = [])"
proof -
  from parse_fields[of report v] obtain r
    where r: "parseOfficerReport report v = Inr r"
      and cs: "extractCriteriaScores report v = Inr (criteriaScores r)" by blast
  have "strengths c = [] \<and> suggestions c = []" if "c \<in> set (criteriaScores r)" for c
  proof -
    from criteria_ok_member[OF cs that] obtain cr where "criterion_ok report cr c" by auto
    then show ?thesis by (simp add: criterion_ok_def)
  qed
  with r show ?thesis by auto
qed

theorem criterion_strengths_suggestions_empty_witness:
  "\<exists>r. parseOfficerReport (js ''Criterion 1 Rating: Strong. Strengths: - major awards'') P1A
        = Inr r
      \<and> map rating (criteriaScores r)
          = [Strong, NotClaimed, NotClaimed, NotClaimed, NotClaimed, NotClaimed]
      \<and> map strengths (criteriaScores r) = [[], [], [], [], [], []]
      \<and> map suggestions (criteriaScores r) = [[], [], [], [], [], []]"
proof -
  have "map_sum id (\<lambda>r. (map rating (criteriaScores r), map strengths (criteriaScores r),
            map suggestions (criteriaScores r)))
          (parseOfficerReport
             (js ''Criterion 1 Rating: Strong. Strengths: - major awards'') P1A)
        = Inr ([Strong, NotClaimed, NotClaimed, NotClaimed, NotClaimed, NotClaimed],
               [[], [], [], [], [], []], [[], [], [], [], [], []])"
    by (simp add: eval_chars eval_patterns eval_parser)
  with criterion_strengths_suggestions_empty
    [of "js ''Criterion 1 Rating: Strong. Strengths: - major awards''" P1A]
  show ?thesis by auto
qed

end
